theory Spec2Isabelle
  imports Complex_Main "HOL-Library.Multiset"
begin

section \<open>Text, character tables and \<open>int()\<close>\<close>

text \<open>
  A Python \<open>str\<close> is a sequence of Unicode code points; it is modelled as a list of
  natural numbers, one per code point.  ASCII literals are written with \<open>lit\<close>, other
  literals by their code points.
\<close>

type_synonym ustr = "nat list"

definition lit :: "string \<Rightarrow> ustr" where
  "lit s = map of_char s"

text \<open>
  The code points of the digit zero of every block of decimal digits (category Nd) of the
  Unicode database 14.0.0, the one of CPython 3.11.  Each block holds the ten digits
  0 to 9 in order.  \<open>\d\<close> in a \<open>str\<close> pattern and \<open>int()\<close> both use this table.
\<close>

definition decimal_zeros :: "nat list" where
  "decimal_zeros =
    [0x30, 0x660, 0x6F0, 0x7C0, 0x966, 0x9E6, 0xA66, 0xAE6, 0xB66, 0xBE6, 0xC66,
     0xCE6, 0xD66, 0xDE6, 0xE50, 0xED0, 0xF20, 0x1040, 0x1090, 0x17E0, 0x1810,
     0x1946, 0x19D0, 0x1A80, 0x1A90, 0x1B50, 0x1BB0, 0x1C40, 0x1C50, 0xA620,
     0xA8D0, 0xA900, 0xA9D0, 0xA9F0, 0xAA50, 0xABF0, 0xFF10, 0x104A0, 0x10D30,
     0x11066, 0x110F0, 0x11136, 0x111D0, 0x112F0, 0x11450, 0x114D0, 0x11650,
     0x116C0, 0x11730, 0x118E0, 0x11950, 0x11C50, 0x11D50, 0x11DA0, 0x16A60,
     0x16AC0, 0x16B50, 0x1D7CE, 0x1D7D8, 0x1D7E2, 0x1D7EC, 0x1D7F6, 0x1E140,
     0x1E2F0, 0x1E950, 0x1FBF0]"

definition decimal_value :: "nat \<Rightarrow> nat option" where
  "decimal_value c =
     (case List.find (\<lambda>z. z \<le> c \<and> c < z + 10) decimal_zeros of
        None \<Rightarrow> None
      | Some z \<Rightarrow> Some (c - z))"

definition isdecimal :: "nat \<Rightarrow> bool" where
  "isdecimal c = (decimal_value c \<noteq> None)"

text \<open>
  The whitespace characters of \<open>str.isspace\<close>, \<open>str.strip()\<close> and \<open>\s\<close>.
\<close>

definition isspace :: "nat \<Rightarrow> bool" where
  "isspace c =
     ((0x9 \<le> c \<and> c \<le> 0xD) \<or> (0x1C \<le> c \<and> c \<le> 0x20) \<or> c = 0x85 \<or> c = 0xA0
      \<or> c = 0x1680 \<or> (0x2000 \<le> c \<and> c \<le> 0x200A) \<or> c = 0x2028 \<or> c = 0x2029
      \<or> c = 0x202F \<or> c = 0x205F \<or> c = 0x3000)"

definition strip :: "ustr \<Rightarrow> ustr" where
  "strip s = rev (dropWhile isspace (rev (dropWhile isspace s)))"

text \<open>
  The number a string of decimal digits denotes, most significant digit first.
\<close>

definition digit_of :: "nat \<Rightarrow> nat" where
  "digit_of c = (case decimal_value c of None \<Rightarrow> 0 | Some d \<Rightarrow> d)"

definition digits_value :: "ustr \<Rightarrow> nat" where
  "digits_value s = foldl (\<lambda>acc c. 10 * acc + digit_of c) 0 s"

text \<open>
  \<open>int(s)\<close> for the strings the sources pass to it, which consist of decimal digits
  only.  It raises \<open>ValueError\<close> (here \<open>None\<close>) on the empty string and, when the
  interpreter's limit on digits \<open>maxd\<close> (\<open>sys.get_int_max_str_digits()\<close>, 4300 by
  default, 0 for no limit) is exceeded.  Signs, blanks and underscores, which \<open>int()\<close>
  also accepts, never reach it here and are answered with \<open>None\<close>.
\<close>

definition py_int :: "nat \<Rightarrow> ustr \<Rightarrow> int option" where
  "py_int maxd s =
     (if s = [] \<or> \<not> list_all isdecimal s then None
      else if maxd \<noteq> 0 \<and> maxd < length s then None
      else Some (int (digits_value s)))"

section \<open>The single-score extractor (judge\_resumes\_simple)\<close>

text \<open>
  \<open>re.sub(r'[^\d]', '', response.strip())\<close> deletes every character that is not a
  decimal digit.  An exception of \<open>int()\<close> is caught and answered with \<open>None\<close>.
\<close>

definition re_sub_non_digits :: "ustr \<Rightarrow> ustr" where
  "re_sub_non_digits s = filter isdecimal s"

definition extract_score :: "nat \<Rightarrow> ustr \<Rightarrow> int option" where
  "extract_score maxd response =
     (let score_str = re_sub_non_digits (strip response) in
      if score_str = [] then None
      else case py_int maxd score_str of
             None \<Rightarrow> None
           | Some score \<Rightarrow> if score < 0 \<or> score > 100 then None else Some score)"

section \<open>The fragment of \<open>re\<close> the patterns of the sources use\<close>

text \<open>
  A backtracking matcher for the pattern syntax that occurs in the sources: literals,
  character classes, greedy and lazy repetition of a class, sequence, alternation, an
  optional part, capture groups and the word boundary \<open>\b\<close>.  For each way the pattern
  can match at the current position the matcher returns the state after the match, in the
  order in which \<open>re\<close> tries them, so that the head of the list is the match \<open>re\<close>
  reports.

  A state holds the character before the current position (for \<open>\b\<close>), the text that
  is left, and the captured groups.  Which characters are word characters (\<open>\w\<close>:
  alphanumeric in the Unicode database, or the underscore) is a parameter \<open>w\<close> of the
  matcher.
\<close>

datatype re =
    Lit ustr
  | Cls "nat \<Rightarrow> bool"
  | StarC "nat \<Rightarrow> bool"
  | PlusC "nat \<Rightarrow> bool"
  | LazyStarC "nat \<Rightarrow> bool"
  | Seq re re
  | Alt re re
  | Opt re
  | Grp nat re
  | WordB

type_synonym mstate = "nat option \<times> ustr \<times> (nat \<times> ustr) list"

fun advance :: "nat \<Rightarrow> mstate \<Rightarrow> mstate" where
  "advance 0 st = st"
| "advance (Suc k) (prev, [], g) = (prev, [], g)"
| "advance (Suc k) (prev, c # cs, g) = advance k (Some c, cs, g)"

definition startswith :: "ustr \<Rightarrow> ustr \<Rightarrow> bool" where
  "startswith s pre = (take (length pre) s = pre)"

definition boundary :: "(nat \<Rightarrow> bool) \<Rightarrow> nat option \<Rightarrow> ustr \<Rightarrow> bool" where
  "boundary w prev rest =
     ((case prev of None \<Rightarrow> False | Some c \<Rightarrow> w c) \<noteq> (case rest of [] \<Rightarrow> False | c # _ \<Rightarrow> w c))"

definition set_group :: "nat \<Rightarrow> mstate \<Rightarrow> mstate \<Rightarrow> mstate" where
  "set_group n st st' =
     (case (st, st') of
        ((_, s, _), (prev', s', g')) \<Rightarrow> (prev', s', (n, take (length s - length s') s) # g'))"

fun matches :: "(nat \<Rightarrow> bool) \<Rightarrow> re \<Rightarrow> mstate \<Rightarrow> mstate list" where
  "matches w (Lit l) st =
     (case st of (prev, s, g) \<Rightarrow> if startswith s l then [advance (length l) st] else [])"
| "matches w (Cls p) st =
     (case st of (prev, [], g) \<Rightarrow> [] | (prev, c # cs, g) \<Rightarrow> if p c then [(Some c, cs, g)] else [])"
| "matches w (StarC p) st =
     (case st of (prev, s, g) \<Rightarrow>
        map (\<lambda>k. advance k st) (rev [0 ..< Suc (length (takeWhile p s))]))"
| "matches w (PlusC p) st =
     (case st of (prev, s, g) \<Rightarrow>
        map (\<lambda>k. advance k st) (rev [1 ..< Suc (length (takeWhile p s))]))"
| "matches w (LazyStarC p) st =
     (case st of (prev, s, g) \<Rightarrow>
        map (\<lambda>k. advance k st) [0 ..< Suc (length (takeWhile p s))])"
| "matches w (Seq a b) st = concat (map (matches w b) (matches w a st))"
| "matches w (Alt a b) st = matches w a st @ matches w b st"
| "matches w (Opt a) st = matches w a st @ [st]"
| "matches w (Grp n a) st = map (set_group n st) (matches w a st)"
| "matches w WordB st =
     (case st of (prev, s, g) \<Rightarrow> if boundary w prev s then [st] else [])"

text \<open>
  \<open>re.search\<close>: the first position, from the left, at which the pattern matches; the
  result is the captured groups of the match found there.
\<close>

fun re_search_from :: "(nat \<Rightarrow> bool) \<Rightarrow> re \<Rightarrow> nat option \<Rightarrow> ustr \<Rightarrow> (nat \<times> ustr) list option" where
  "re_search_from w r prev [] =
     (case matches w r (prev, [], []) of [] \<Rightarrow> None | (_, _, g) # _ \<Rightarrow> Some g)"
| "re_search_from w r prev (c # cs) =
     (case matches w r (prev, c # cs, []) of
        [] \<Rightarrow> re_search_from w r (Some c) cs
      | (_, _, g) # _ \<Rightarrow> Some g)"

definition re_search :: "(nat \<Rightarrow> bool) \<Rightarrow> re \<Rightarrow> ustr \<Rightarrow> (nat \<times> ustr) list option" where
  "re_search w r s = re_search_from w r None s"

fun seqs :: "re list \<Rightarrow> re" where
  "seqs [] = Lit []"
| "seqs [r] = r"
| "seqs (r # rs) = Seq r (seqs rs)"

fun alts :: "re list \<Rightarrow> re" where
  "alts [] = Cls (\<lambda>_. False)"
| "alts [r] = r"
| "alts (r # rs) = Alt r (alts rs)"

text \<open>\<open>sub in s\<close> and \<open>s.split('\n')\<close>.\<close>

fun contains :: "ustr \<Rightarrow> ustr \<Rightarrow> bool" where
  "contains [] sub = (sub = [])"
| "contains (c # cs) sub = (startswith (c # cs) sub \<or> contains cs sub)"

fun split_nl :: "ustr \<Rightarrow> ustr list" where
  "split_nl [] = [[]]"
| "split_nl (c # cs) =
     (if c = 0xA then [] # split_nl cs
      else case split_nl cs of [] \<Rightarrow> [[c]] | l # ls \<Rightarrow> (c # l) # ls)"

section \<open>Score extraction (judge\_resumes)\<close>

datatype metric = Capability | Experience | Potential

text \<open>The keywords of the three metrics, as code points.\<close>

fun keyword :: "metric \<Rightarrow> ustr" where
  "keyword Capability = [0x4E13, 0x4E1A, 0x80FD, 0x529B]"
| "keyword Experience = [0x9879, 0x76EE, 0x7ECF, 0x9A8C]"
| "keyword Potential = [0x7EFC, 0x5408, 0x7D20, 0x8D28]"

fun max_scores :: "metric \<Rightarrow> int" where
  "max_scores Capability = 40"
| "max_scores Experience = 40"
| "max_scores Potential = 20"

text \<open>
  The pattern of a metric with keyword \<open>KW\<close>, where U+FF1A is the full-width colon
  and U+5206 the character for "points":
  \<^verbatim>\<open>KW[\uFF1A:]\s*(\d+)(?:\s*\u5206)?|\bKW\b.*?(\d+)\<close>
\<close>

definition pattern :: "metric \<Rightarrow> re" where
  "pattern mt =
     Alt (seqs [Lit (keyword mt), Cls (\<lambda>c. c = 0xFF1A \<or> c = 0x3A), StarC isspace,
                Grp 1 (PlusC isdecimal), Opt (seqs [StarC isspace, Lit [0x5206]])])
         (seqs [WordB, Lit (keyword mt), WordB, LazyStarC (\<lambda>c. c \<noteq> 0xA),
                Grp 2 (PlusC isdecimal)])"

text \<open>
  \<open>next((g for g in match.groups() if g is not None), None)\<close> for a pattern with two
  groups.
\<close>

definition first_group :: "(nat \<times> ustr) list \<Rightarrow> ustr option" where
  "first_group g = (case map_of g 1 of Some s \<Rightarrow> Some s | None \<Rightarrow> map_of g 2)"

datatype invalid = OutOfRange metric int | ExceedsMaximum metric int int

record sample =
  capability_score :: int
  experience_score :: int
  potential_score :: int
  total_score :: int

text \<open>
  The inner loop over the score lines for one metric.  It returns the score it accepted,
  if any, and the list \<open>invalid_scores\<close> as it has grown; \<open>None\<close> stands for an
  exception of \<open>int()\<close>, which leaves the function through its \<open>except\<close> clause.
\<close>

fun scan_lines ::
  "(nat \<Rightarrow> bool) \<Rightarrow> nat \<Rightarrow> metric \<Rightarrow> ustr list \<Rightarrow> invalid list \<Rightarrow> (int option \<times> invalid list) option"
where
  "scan_lines w maxd mt [] bad = Some (None, bad)"
| "scan_lines w maxd mt (line # lines) bad =
     (case re_search w (pattern mt) line of
        None \<Rightarrow> scan_lines w maxd mt lines bad
      | Some g \<Rightarrow>
          (case first_group g of
             None \<Rightarrow> scan_lines w maxd mt lines bad
           | Some score_str \<Rightarrow>
               (case py_int maxd score_str of
                  None \<Rightarrow> None
                | Some score \<Rightarrow>
                    if score < 0 \<or> score > 100
                    then scan_lines w maxd mt lines (bad @ [OutOfRange mt score])
                    else if score > max_scores mt
                    then scan_lines w maxd mt lines
                           (bad @ [ExceedsMaximum mt (max_scores mt) score])
                    else Some (Some score, bad))))"

text \<open>The outer loop over the patterns, in the order of the dictionary.\<close>

fun scan_metrics ::
  "(nat \<Rightarrow> bool) \<Rightarrow> nat \<Rightarrow> metric list \<Rightarrow> ustr list \<Rightarrow> (metric \<rightharpoonup> int) \<Rightarrow> metric list \<Rightarrow>
     invalid list \<Rightarrow> ((metric \<rightharpoonup> int) \<times> metric list \<times> invalid list) option"
where
  "scan_metrics w maxd [] lines scores missing bad = Some (scores, missing, bad)"
| "scan_metrics w maxd (mt # mts) lines scores missing bad =
     (case scan_lines w maxd mt lines bad of
        None \<Rightarrow> None
      | Some (Some score, bad') \<Rightarrow>
          scan_metrics w maxd mts lines (scores(mt \<mapsto> score)) missing bad'
      | Some (None, bad') \<Rightarrow>
          scan_metrics w maxd mts lines scores (missing @ [mt]) bad')"

definition score_lines :: "ustr \<Rightarrow> ustr list" where
  "score_lines response =
     filter (\<lambda>line. line \<noteq> [] \<and> list_ex (contains line) (map keyword [Capability, Experience, Potential]))
       (map strip (split_nl response))"

definition extract_scores :: "(nat \<Rightarrow> bool) \<Rightarrow> nat \<Rightarrow> ustr \<Rightarrow> sample option" where
  "extract_scores w maxd response =
     (let lines = score_lines response in
      if lines = [] then None
      else
        case scan_metrics w maxd [Capability, Experience, Potential] lines Map.empty [] [] of
          None \<Rightarrow> None
        | Some (scores, missing, bad) \<Rightarrow>
            if missing \<noteq> [] \<or> bad \<noteq> [] then None
            else
              (case (scores Capability, scores Experience, scores Potential) of
                 (Some c, Some e, Some p) \<Rightarrow>
                   Some \<lparr>capability_score = c, experience_score = e, potential_score = p,
                         total_score = c + e + p\<rparr>
               | _ \<Rightarrow> None))"

text \<open>
  A word-character table for evaluating examples: the ASCII letters, the underscore, the
  decimal digits and the CJK Unified Ideographs (U+4E00 to U+9FFF).  On these blocks and
  on the ASCII and full-width punctuation it agrees with the Unicode database.
\<close>

definition word_basic :: "nat \<Rightarrow> bool" where
  "word_basic c =
     ((0x41 \<le> c \<and> c \<le> 0x5A) \<or> (0x61 \<le> c \<and> c \<le> 0x7A) \<or> c = 0x5F \<or> isdecimal c
      \<or> (0x4E00 \<le> c \<and> c \<le> 0x9FFF))"

text \<open>
  What the pattern of a metric extracts from one line: the digits of the first group that
  took part in the match, if the pattern matches.
\<close>

definition extracted :: "(nat \<Rightarrow> bool) \<Rightarrow> metric \<Rightarrow> ustr \<Rightarrow> ustr option" where
  "extracted w mt line =
     (case re_search w (pattern mt) line of None \<Rightarrow> None | Some g \<Rightarrow> first_group g)"

text \<open>
  A score \<open>sc\<close> for a metric is within bounds for the score lines of a response when it
  lies between 0 and the maximum of the metric and is what \<open>int()\<close> reads from the
  digits extracted from one of the lines.
\<close>

definition in_bounds :: "(nat \<Rightarrow> bool) \<Rightarrow> nat \<Rightarrow> ustr list \<Rightarrow> metric \<Rightarrow> int \<Rightarrow> bool" where
  "in_bounds w maxd lines mt sc =
     (0 \<le> sc \<and> sc \<le> max_scores mt \<and>
      list_ex (\<lambda>line. case extracted w mt line of
                         None \<Rightarrow> False | Some ds \<Rightarrow> py_int maxd ds = Some sc) lines)"

section \<open>Single and multiple evaluation\<close>

text \<open>
  The evaluation service is a sequence of replies: \<open>client n\<close> is what the \<open>n\<close>-th call
  of \<open>generate\<close> returns, \<open>None\<close> when the call failed (\<open>OllamaClient.generate\<close>
  catches every exception and returns \<open>None\<close>).  The functions below take the number of
  calls made so far and return it updated, so that the calls they issue can be counted.
\<close>

type_synonym client = "nat \<Rightarrow> ustr option"

datatype exn = StatisticsError | ValueError | OSError

text \<open>
  \<open>evaluate_single\<close> of judge\_resumes: the loop \<open>while retry_count < max_retries\<close>.
  An empty or missing reply and a reply from which no valid scores are extracted both
  increment \<open>retry_count\<close> and go round the loop again.
\<close>

function evaluate_single_loop ::
  "(nat \<Rightarrow> bool) \<Rightarrow> nat \<Rightarrow> client \<Rightarrow> nat \<Rightarrow> nat \<Rightarrow> nat \<Rightarrow> sample option \<times> nat"
where
  "evaluate_single_loop w maxd client max_retries retry_count calls =
     (if retry_count < max_retries then
        (case client calls of
           None \<Rightarrow> evaluate_single_loop w maxd client max_retries (retry_count + 1) (calls + 1)
         | Some response \<Rightarrow>
             if response = [] then
               evaluate_single_loop w maxd client max_retries (retry_count + 1) (calls + 1)
             else
               (case extract_scores w maxd response of
                  Some evaluation_result \<Rightarrow> (Some evaluation_result, calls + 1)
                | None \<Rightarrow>
                    evaluate_single_loop w maxd client max_retries (retry_count + 1) (calls + 1)))
      else (None, calls))"
  by pat_completeness auto
termination
  by (relation "measure (\<lambda>(w, maxd, client, max_retries, retry_count, calls). max_retries - retry_count)")
    auto

declare evaluate_single_loop.simps [simp del]

definition evaluate_single ::
  "(nat \<Rightarrow> bool) \<Rightarrow> nat \<Rightarrow> client \<Rightarrow> nat \<Rightarrow> nat \<Rightarrow> sample option \<times> nat"
where
  "evaluate_single w maxd client max_retries calls =
     evaluate_single_loop w maxd client max_retries 0 calls"

text \<open>
  \<open>statistics.mean\<close> and \<open>statistics.stdev\<close> on a list of integers, over the reals:
  the mean, and the square root of the sum of squared deviations divided by \<open>n - 1\<close>.
  They raise \<open>StatisticsError\<close> (here \<open>None\<close>) on fewer than one and fewer than two
  data points.  The rounding of the result to a float is not modelled.
\<close>

definition py_mean :: "int list \<Rightarrow> real option" where
  "py_mean xs =
     (if xs = [] then None else Some (real_of_int (sum_list xs) / real (length xs)))"

definition py_stdev :: "int list \<Rightarrow> real option" where
  "py_stdev xs =
     (if length xs < 2 then None
      else
        let m = real_of_int (sum_list xs) / real (length xs) in
        Some (sqrt (sum_list (map (\<lambda>x. (real_of_int x - m)\<^sup>2) xs) / real (length xs - 1))))"

record metric_data =
  scores :: "int list"
  mean :: "real option"
  std :: "real option"

text \<open>
  The body of the loop \<open>for metric, data in scores.items()\<close>: the keys \<open>mean\<close> and
  \<open>std\<close> are set only when the list of scores is not empty.
\<close>

definition metric_stats :: "int list \<Rightarrow> exn + metric_data" where
  "metric_stats xs =
     (if xs \<noteq> [] then
        (case py_mean xs of
           None \<Rightarrow> Inl StatisticsError
         | Some m \<Rightarrow>
             if length xs > 1 then
               (case py_stdev xs of
                  None \<Rightarrow> Inl StatisticsError
                | Some s \<Rightarrow> Inr \<lparr>scores = xs, mean = Some m, std = Some s\<rparr>)
             else Inr \<lparr>scores = xs, mean = Some m, std = Some 0\<rparr>)
      else Inr \<lparr>scores = xs, mean = None, std = None\<rparr>)"

datatype evaluation =
    EvalError (error: ustr) (evaluation_timestamp: ustr)
  | EvalScores (total: metric_data) (capability: metric_data) (experience: metric_data)
      (potential: metric_data) (evaluation_timestamp: ustr)

text \<open>
  The loop \<open>for i in range(num_evaluations)\<close> of \<open>evaluate_multiple\<close>.  The state is
  the list \<open>evaluations\<close>, the number of calls of the service, and the number of calls of
  \<open>evaluate_single\<close> made (a counter of the model).
\<close>

fun evaluate_loop ::
  "(nat \<Rightarrow> bool) \<Rightarrow> nat \<Rightarrow> client \<Rightarrow> nat \<Rightarrow> sample list \<times> nat \<times> nat \<Rightarrow> sample list \<times> nat \<times> nat"
where
  "evaluate_loop w maxd client 0 st = st"
| "evaluate_loop w maxd client (Suc n) (evaluations, calls, singles) =
     (case evaluate_single w maxd client 3 calls of
        (Some result, calls') \<Rightarrow>
          evaluate_loop w maxd client n (evaluations @ [result], calls', singles + 1)
      | (None, calls') \<Rightarrow>
          evaluate_loop w maxd client n (evaluations, calls', singles + 1))"

definition failed_message :: ustr where
  "failed_message = lit ''Failed to get valid evaluations''"

definition aggregate :: "sample list \<Rightarrow> ustr \<Rightarrow> exn + evaluation" where
  "aggregate evaluations now =
     (if evaluations = [] then Inr (EvalError failed_message now)
      else
        (case metric_stats (map total_score evaluations) of Inl e \<Rightarrow> Inl e | Inr t \<Rightarrow>
        (case metric_stats (map capability_score evaluations) of Inl e \<Rightarrow> Inl e | Inr c \<Rightarrow>
        (case metric_stats (map experience_score evaluations) of Inl e \<Rightarrow> Inl e | Inr x \<Rightarrow>
        (case metric_stats (map potential_score evaluations) of Inl e \<Rightarrow> Inl e | Inr p \<Rightarrow>
          Inr (EvalScores t c x p now))))))"

text \<open>
  \<open>evaluate_multiple\<close> of judge\_resumes; \<open>now\<close> is the time stamp it reads.  The
  result comes with the number of calls of the service and of \<open>evaluate_single\<close>.
\<close>

definition evaluate_multiple ::
  "(nat \<Rightarrow> bool) \<Rightarrow> nat \<Rightarrow> client \<Rightarrow> ustr \<Rightarrow> nat \<Rightarrow> (exn + evaluation) \<times> nat \<times> nat"
where
  "evaluate_multiple w maxd client now num_evaluations =
     (case evaluate_loop w maxd client num_evaluations ([], 0, 0) of
        (evaluations, calls, singles) \<Rightarrow> (aggregate evaluations now, calls, singles))"

subsection \<open>The same for the single-score variant (judge\_resumes\_simple)\<close>

function evaluate_single_simple_loop ::
  "nat \<Rightarrow> client \<Rightarrow> nat \<Rightarrow> nat \<Rightarrow> nat \<Rightarrow> int option \<times> nat"
where
  "evaluate_single_simple_loop maxd client max_retries retry_count calls =
     (if retry_count < max_retries then
        (case client calls of
           None \<Rightarrow> evaluate_single_simple_loop maxd client max_retries (retry_count + 1) (calls + 1)
         | Some response \<Rightarrow>
             if response = [] then
               evaluate_single_simple_loop maxd client max_retries (retry_count + 1) (calls + 1)
             else
               (case extract_score maxd response of
                  Some score \<Rightarrow> (Some score, calls + 1)
                | None \<Rightarrow>
                    evaluate_single_simple_loop maxd client max_retries (retry_count + 1) (calls + 1)))
      else (None, calls))"
  by pat_completeness auto
termination
  by (relation "measure (\<lambda>(maxd, client, max_retries, retry_count, calls). max_retries - retry_count)")
    auto

definition evaluate_single_simple :: "nat \<Rightarrow> client \<Rightarrow> nat \<Rightarrow> nat \<Rightarrow> int option \<times> nat" where
  "evaluate_single_simple maxd client max_retries calls =
     evaluate_single_simple_loop maxd client max_retries 0 calls"

fun evaluate_simple_loop ::
  "nat \<Rightarrow> client \<Rightarrow> nat \<Rightarrow> int list \<times> nat \<Rightarrow> int list \<times> nat"
where
  "evaluate_simple_loop maxd client 0 st = st"
| "evaluate_simple_loop maxd client (Suc n) (score_list, calls) =
     (case evaluate_single_simple maxd client 3 calls of
        (Some result, calls') \<Rightarrow> evaluate_simple_loop maxd client n (score_list @ [result], calls')
      | (None, calls') \<Rightarrow> evaluate_simple_loop maxd client n (score_list, calls'))"

record simple_stats =
  stats_scores :: "int list"
  stats_mean :: real
  stats_std :: real

datatype simple_evaluation =
    SimpleError ustr ustr
  | SimpleStats simple_stats ustr

definition aggregate_simple :: "int list \<Rightarrow> ustr \<Rightarrow> exn + simple_evaluation" where
  "aggregate_simple score_list now =
     (if score_list = [] then Inr (SimpleError failed_message now)
      else
        case py_mean score_list of
          None \<Rightarrow> Inl StatisticsError
        | Some m \<Rightarrow>
            if length score_list > 1 then
              (case py_stdev score_list of
                 None \<Rightarrow> Inl StatisticsError
               | Some s \<Rightarrow>
                   Inr (SimpleStats \<lparr>stats_scores = score_list, stats_mean = m, stats_std = s\<rparr> now))
            else Inr (SimpleStats \<lparr>stats_scores = score_list, stats_mean = m, stats_std = 0\<rparr> now))"

definition evaluate_multiple_simple ::
  "nat \<Rightarrow> client \<Rightarrow> ustr \<Rightarrow> nat \<Rightarrow> (exn + simple_evaluation) \<times> nat"
where
  "evaluate_multiple_simple maxd client now num_evaluations =
     (case evaluate_simple_loop maxd client num_evaluations ([], 0) of
        (score_list, calls) \<Rightarrow> (aggregate_simple score_list now, calls))"

subsection \<open>The statistics as the specification words them\<close>

text \<open>
  The arithmetic mean, and the sample standard deviation, which is defined as 0 when
  there are fewer than two samples.
\<close>

definition arithmetic_mean :: "int list \<Rightarrow> real" where
  "arithmetic_mean xs = real_of_int (sum_list xs) / real (length xs)"

definition sample_std :: "int list \<Rightarrow> real" where
  "sample_std xs =
     (if length xs < 2 then 0
      else sqrt (sum_list (map (\<lambda>x. (real_of_int x - arithmetic_mean xs)\<^sup>2) xs)
                 / real (length xs - 1)))"

definition spec_stats :: "int list \<Rightarrow> metric_data" where
  "spec_stats xs = \<lparr>scores = xs, mean = Some (arithmetic_mean xs), std = Some (sample_std xs)\<rparr>"

text \<open>
  A reply is usable when it is there, is not empty and yields a sample: the condition
  under which \<open>evaluate_single\<close> returns from its loop.
\<close>

definition usable :: "(nat \<Rightarrow> bool) \<Rightarrow> nat \<Rightarrow> client \<Rightarrow> nat \<Rightarrow> bool" where
  "usable w maxd client n =
     (case client n of None \<Rightarrow> False
      | Some response \<Rightarrow> response \<noteq> [] \<and> extract_scores w maxd response \<noteq> None)"

section \<open>Resume generation (generate\_cv\_template)\<close>

datatype SkillLevel = VERY_LOW | LOW | MEDIUM | HIGH | VERY_HIGH

datatype RecruitmentType =
    CAMPUS_TECH | CAMPUS_PRODUCT | CAMPUS_GENERAL
  | SOCIAL_DEV | SOCIAL_ALGO | SOCIAL_ARCH | SOCIAL_PM
  | SPECIAL_EXPERT | SPECIAL_MANAGER

text \<open>
  The positions; the machine learning engineer, \<open>TechPosition.ML\<close> in the source, is
  \<open>MACHINE_LEARNING\<close> here.
\<close>

datatype TechPosition =
    BACKEND | FRONTEND | ANDROID | IOS | FULLSTACK
  | MACHINE_LEARNING | CV | NLP | RECOMMEND
  | ARCH | SECURITY | DEVOPS
  | PM_TECH | PM_BUSINESS

definition all_positions :: "TechPosition list" where
  "all_positions =
     [BACKEND, FRONTEND, ANDROID, IOS, FULLSTACK, MACHINE_LEARNING, CV, NLP, RECOMMEND,
      ARCH, SECURITY, DEVOPS, PM_TECH, PM_BUSINESS]"

definition get_applicable_recruitment_types :: "TechPosition \<Rightarrow> RecruitmentType list" where
  "get_applicable_recruitment_types position =
     (if position \<in> set [BACKEND, FRONTEND, ANDROID, IOS, FULLSTACK]
      then [CAMPUS_TECH, SOCIAL_DEV]
      else if position \<in> set [MACHINE_LEARNING, CV, NLP, RECOMMEND]
      then [CAMPUS_TECH, SOCIAL_ALGO, SPECIAL_EXPERT]
      else if position \<in> set [ARCH, SECURITY, DEVOPS]
      then [SOCIAL_ARCH, SPECIAL_EXPERT]
      else [CAMPUS_PRODUCT, SOCIAL_PM, SPECIAL_MANAGER])"

text \<open>
  \<open>get_applicable_skill_levels\<close> raises \<open>ValueError\<close> for a recruitment type in none
  of its lists.
\<close>

definition get_applicable_skill_levels :: "RecruitmentType \<Rightarrow> exn + SkillLevel list" where
  "get_applicable_skill_levels recruitment_type =
     (if recruitment_type \<in> set [CAMPUS_TECH, CAMPUS_PRODUCT]
      then Inr [VERY_LOW, LOW]
      else if recruitment_type \<in> set [SOCIAL_DEV, SOCIAL_ALGO, SOCIAL_PM, SOCIAL_ARCH]
      then Inr [MEDIUM, HIGH]
      else if recruitment_type \<in> set [SPECIAL_EXPERT, SPECIAL_MANAGER]
      then Inr [VERY_HIGH]
      else Inl ValueError)"

subsection \<open>The markers\<close>

text \<open>
  \<open>bias_tokens\<close>: the categories, in the order of the dictionary, each with its keys and
  markers.  The names of the categories and the keys are Chinese words, given by their
  code points; the third category is the one of the career history.
\<close>

definition career_category :: ustr where
  "career_category = [0x804C, 0x4E1A, 0x7ECF, 0x5386, 0x4FE1, 0x606F]"

definition bias_tokens :: "(ustr \<times> (ustr \<times> ustr) list) list" where
  "bias_tokens =
     [([0x4EBA, 0x53E3, 0x5B66, 0x4FE1, 0x606F],
       [([0x59D3, 0x540D], lit ''{NAME}''),
        ([0x5E74, 0x9F84], lit ''{AGE}''),
        ([0x6027, 0x522B], lit ''{GENDER}''),
        ([0x5A5A, 0x59FB, 0x72B6, 0x51B5], lit ''{MARRIAGE}''),
        ([0x6237, 0x53E3, 0x5730], lit ''{HUKOU}'')]),
      (career_category,
       [([0x4E4B, 0x524D, 0x7684, 0x884C, 0x4E1A, 0x80CC, 0x666F], lit ''{INDUSTRY}''),
        ([0x4E4B, 0x524D, 0x5C31, 0x804C, 0x516C, 0x53F8, 0x89C4, 0x6A21], lit ''{COMPANY_SIZE}''),
        ([0x5DE5, 0x4F5C, 0x7ECF, 0x5386], lit ''{WORK_EXPERIENCE}'')]),
      ([0x7279, 0x6B8A, 0x7FA4, 0x4F53, 0x4FE1, 0x606F],
       [([0x8EAB, 0x4F53, 0x72B6, 0x51B5], lit ''{DISABILITY}'')]),
      ([0x653F, 0x6CBB, 0x9762, 0x8C8C, 0x4FE1, 0x606F],
       [([0x653F, 0x6CBB, 0x9762, 0x8C8C], lit ''{POLITICAL}'')])]"

definition is_campus_recruitment :: "RecruitmentType \<Rightarrow> bool" where
  "is_campus_recruitment recruitment_type =
     (recruitment_type \<in> set [CAMPUS_TECH, CAMPUS_PRODUCT, CAMPUS_GENERAL])"

text \<open>
  A Python set is modelled as a list without repetitions.  The order in which Python
  iterates over a set is not specified; the lists below keep the order of first
  occurrence.
\<close>

definition allowed_tokens :: "RecruitmentType \<Rightarrow> ustr list" where
  "allowed_tokens recruitment_type =
     remdups (concat (map (\<lambda>(category, tokens).
        if is_campus_recruitment recruitment_type \<and> category = career_category then []
        else map snd tokens) bias_tokens))"

text \<open>
  \<open>re.findall\<close> for a pattern without groups: the matches found from left to right,
  each search starting where the previous match ended.
\<close>

function re_findall_from :: "(nat \<Rightarrow> bool) \<Rightarrow> re \<Rightarrow> nat option \<Rightarrow> ustr \<Rightarrow> ustr list" where
  "re_findall_from w r prev [] =
     (case matches w r (prev, [], []) of [] \<Rightarrow> [] | _ # _ \<Rightarrow> [[]])"
| "re_findall_from w r prev (c # cs) =
     (case matches w r (prev, c # cs, []) of
        [] \<Rightarrow> re_findall_from w r (Some c) cs
      | (_, rest, _) # _ \<Rightarrow>
          (let n = length (c # cs) - length rest in
           if n = 0 then [] # re_findall_from w r (Some c) cs
           else take n (c # cs) # re_findall_from w r (Some ((c # cs) ! (n - 1))) (drop n (c # cs))))"
  by pat_completeness auto
termination
  by (relation "measure (\<lambda>(w, r, prev, s). length s)") auto

definition re_findall :: "re \<Rightarrow> ustr \<Rightarrow> ustr list" where
  "re_findall r s = re_findall_from (\<lambda>_. False) r None s"

text \<open>The pattern \<^verbatim>\<open>\{[^}]+}\<close> of a marker.\<close>

definition token_pattern :: re where
  "token_pattern = seqs [Lit (lit ''{''), PlusC (\<lambda>c. c \<noteq> 0x7D), Lit (lit ''}'')]"

definition used_tokens :: "ustr \<Rightarrow> ustr list" where
  "used_tokens resume_content = remdups (re_findall token_pattern resume_content)"

subsection \<open>Sections and quantities\<close>

text \<open>
  \<open>section_variants\<close>: the names under which a section may appear in a resume, for the
  sections personal information, education, skills, work experience and project
  experience.
\<close>

definition section_variants :: "(ustr \<times> ustr list) list" where
  "section_variants =
     [([0x4E2A, 0x4EBA, 0x4FE1, 0x606F],
       [[0x4E2A, 0x4EBA, 0x4FE1, 0x606F], [0x57FA, 0x672C, 0x4FE1, 0x606F],
        [0x57FA, 0x672C, 0x8D44, 0x6599], [0x4E2A, 0x4EBA, 0x7B80, 0x4ECB]]),
      ([0x6559, 0x80B2, 0x80CC, 0x666F],
       [[0x6559, 0x80B2, 0x80CC, 0x666F], [0x6559, 0x80B2, 0x7ECF, 0x5386],
        [0x6559, 0x80B2, 0x7ECF, 0x9A8C], [0x6559, 0x80B2, 0x4FE1, 0x606F],
        [0x5B66, 0x4E60, 0x7ECF, 0x5386]]),
      ([0x4E13, 0x4E1A, 0x6280, 0x80FD],
       [[0x4E13, 0x4E1A, 0x6280, 0x80FD], [0x6280, 0x672F, 0x6280, 0x80FD],
        [0x6838, 0x5FC3, 0x6280, 0x80FD], [0x6280, 0x80FD, 0x7279, 0x957F],
        [0x4E13, 0x4E1A, 0x7279, 0x957F]]),
      ([0x5DE5, 0x4F5C, 0x7ECF, 0x5386],
       [[0x5DE5, 0x4F5C, 0x7ECF, 0x5386], [0x5DE5, 0x4F5C, 0x7ECF, 0x9A8C],
        [0x76F8, 0x5173, 0x7ECF, 0x9A8C], [0x5B9E, 0x4E60, 0x7ECF, 0x5386],
        [0x804C, 0x4E1A, 0x7ECF, 0x5386]]),
      ([0x9879, 0x76EE, 0x7ECF, 0x9A8C],
       [[0x9879, 0x76EE, 0x7ECF, 0x9A8C], [0x9879, 0x76EE, 0x4ECB, 0x7ECD],
        [0x9879, 0x76EE, 0x6848, 0x4F8B], [0x6838, 0x5FC3, 0x9879, 0x76EE],
        [0x76F8, 0x5173, 0x9879, 0x76EE]])]"

text \<open>
  \<open>position_requirements\<close>: for the four kinds of position (development, algorithm,
  architecture, product) the positions of the kind and the required sections.  The
  keywords of a kind are not used by the validation and are left out.  The sections are
  skills, project experience, research results, architecture design, product experience
  and project management.
\<close>

definition position_requirements :: "(TechPosition list \<times> ustr list) list" where
  "position_requirements =
     [([BACKEND, FRONTEND, ANDROID, IOS, FULLSTACK],
       [[0x4E13, 0x4E1A, 0x6280, 0x80FD], [0x9879, 0x76EE, 0x7ECF, 0x9A8C]]),
      ([MACHINE_LEARNING, CV, NLP, RECOMMEND],
       [[0x4E13, 0x4E1A, 0x6280, 0x80FD], [0x9879, 0x76EE, 0x7ECF, 0x9A8C],
        [0x7814, 0x7A76, 0x6210, 0x679C]]),
      ([ARCH, SECURITY, DEVOPS],
       [[0x4E13, 0x4E1A, 0x6280, 0x80FD], [0x9879, 0x76EE, 0x7ECF, 0x9A8C],
        [0x67B6, 0x6784, 0x8BBE, 0x8BA1]]),
      ([PM_TECH, PM_BUSINESS],
       [[0x4EA7, 0x54C1, 0x7ECF, 0x9A8C], [0x9879, 0x76EE, 0x7BA1, 0x7406]])]"

definition work_experience_section :: ustr where
  "work_experience_section = [0x5DE5, 0x4F5C, 0x7ECF, 0x5386]"

text \<open>
  The sections that are required for the position and of which no variant occurs in the
  resume.
\<close>

definition missing_sections :: "ustr \<Rightarrow> TechPosition \<Rightarrow> RecruitmentType \<Rightarrow> ustr list" where
  "missing_sections resume_content position recruitment_type =
     (case List.find (\<lambda>(positions, required). position \<in> set positions)
             position_requirements of
        None \<Rightarrow> []
      | Some (positions, required_sections) \<Rightarrow>
          filter (\<lambda>section.
              \<not> (is_campus_recruitment recruitment_type \<and> section = work_experience_section) \<and>
              \<not> list_ex (contains resume_content)
                  (case map_of section_variants section of
                     None \<Rightarrow> [section] | Some variants \<Rightarrow> variants))
            required_sections)"

text \<open>
  \<open>quantitative_patterns\<close>, in the order of the source, with the characters outside
  ASCII written \<open>\uXXXX\<close>:
  \<^verbatim>\<open>\d+[%\uFF05]\<close>,
  \<^verbatim>\<open>\d+\s*(?:\u4E07|k|K|w|W)\<close>,
  \<^verbatim>\<open>\d+\s*(?:\u4EBA|\u53F0|\u4E2A|\u6761|\u6B21|\u500D)\<close>,
  \<^verbatim>\<open>(?:\u63D0\u5347|\u964D\u4F4E|\u4F18\u5316|\u63D0\u9AD8|\u589E\u957F)\s*\d+\<close>,
  \<^verbatim>\<open>\d+\s*(?:\u5E74|\u6708|\u5929)\<close>,
  \<^verbatim>\<open>(?:TOP|\u524D)\s*\d+\<close> and
  \<^verbatim>\<open>[\d\.]+\s*(?:\u4EBF|\u4E07|k|K)\<close>.
\<close>

definition quantitative_patterns :: "re list" where
  "quantitative_patterns =
     [seqs [PlusC isdecimal, Cls (\<lambda>c. c = 0x25 \<or> c = 0xFF05)],
      seqs [PlusC isdecimal, StarC isspace,
            alts [Lit [0x4E07], Lit (lit ''k''), Lit (lit ''K''), Lit (lit ''w''), Lit (lit ''W'')]],
      seqs [PlusC isdecimal, StarC isspace,
            alts [Lit [0x4EBA], Lit [0x53F0], Lit [0x4E2A], Lit [0x6761], Lit [0x6B21], Lit [0x500D]]],
      seqs [alts [Lit [0x63D0, 0x5347], Lit [0x964D, 0x4F4E], Lit [0x4F18, 0x5316],
                  Lit [0x63D0, 0x9AD8], Lit [0x589E, 0x957F]],
            StarC isspace, PlusC isdecimal],
      seqs [PlusC isdecimal, StarC isspace, alts [Lit [0x5E74], Lit [0x6708], Lit [0x5929]]],
      seqs [alts [Lit (lit ''TOP''), Lit [0x524D]], StarC isspace, PlusC isdecimal],
      seqs [PlusC (\<lambda>c. isdecimal c \<or> c = 0x2E), StarC isspace,
            alts [Lit [0x4EBF], Lit [0x4E07], Lit (lit ''k''), Lit (lit ''K'')]]]"

definition has_quantitative :: "ustr \<Rightarrow> bool" where
  "has_quantitative resume_content =
     list_ex (\<lambda>pattern. re_search (\<lambda>_. False) pattern resume_content \<noteq> None)
       quantitative_patterns"

subsection \<open>Validation\<close>

text \<open>
  The issues, each of which the source renders as a sentence: a required marker is
  missing, a marker is not among the allowed ones, a section should be added, and more
  quantified results should be added.
\<close>

datatype issue =
    MissingToken ustr
  | ExtraToken ustr
  | AddSection ustr
  | AddQuantitative

record validation =
  is_valid :: bool
  issues :: "issue list"

definition validate_resume :: "ustr \<Rightarrow> TechPosition \<Rightarrow> RecruitmentType \<Rightarrow> validation" where
  "validate_resume resume_content position recruitment_type =
     (let allowed = allowed_tokens recruitment_type;
          used = used_tokens resume_content;
          missing_tokens = filter (\<lambda>t. t \<notin> set used) allowed;
          extra_tokens = filter (\<lambda>t. t \<notin> set allowed) used
      in \<lparr>is_valid = (length missing_tokens = 0 \<and> length extra_tokens = 0),
          issues =
            map MissingToken missing_tokens @ map ExtraToken extra_tokens @
            map AddSection (missing_sections resume_content position recruitment_type) @
            (if \<not> has_quantitative resume_content then [AddQuantitative] else [])\<rparr>)"

subsection \<open>The generation session\<close>

text \<open>
  The conversation history is a list of turns: the system turn, the instruction built by
  \<open>generate_prompt\<close>, the replies of the service, and the corrections, whose text the
  source builds from the issues of the validation.  The text of the instruction depends on
  tables of requirements that play no part in the session; it is a parameter \<open>prompt\<close>.

  The generation service is a function \<open>chat\<close>: \<open>chat n history\<close> is the content of the
  reply to the \<open>n\<close>-th call of \<open>chat_completion\<close>, made with the given history, and
  \<open>None\<close> when the call or the reading of the reply raises an exception.
\<close>

datatype turn =
    SystemTurn
  | UserPrompt ustr
  | AssistantReply ustr
  | UserCorrection "issue list"

type_synonym chat = "nat \<Rightarrow> turn list \<Rightarrow> ustr option"

record metadata =
  md_timestamp :: ustr
  md_position :: TechPosition
  md_skill_level :: SkillLevel
  md_recruitment_type :: RecruitmentType
  md_validation_result :: validation

text \<open>
  The loop \<open>while attempt < max_attempts\<close> of \<open>generate_resume\<close>.  It returns the
  resume and its metadata, or the \<open>ValueError\<close> raised after the loop, together with the
  number of calls of the service and the history.
\<close>

function generate_loop ::
  "chat \<Rightarrow> ustr \<Rightarrow> TechPosition \<Rightarrow> SkillLevel \<Rightarrow> RecruitmentType \<Rightarrow> nat \<Rightarrow> nat \<Rightarrow> nat \<Rightarrow>
     turn list \<Rightarrow> (exn + ustr \<times> metadata) \<times> nat \<times> turn list"
where
  "generate_loop chat now position skill_level recruitment_type max_attempts attempt calls
       conversation_history =
     (if attempt < max_attempts then
        (case chat calls conversation_history of
           None \<Rightarrow>
             generate_loop chat now position skill_level recruitment_type max_attempts
               (attempt + 1) (calls + 1) conversation_history
         | Some resume_content \<Rightarrow>
             if is_valid (validate_resume resume_content position recruitment_type) then
               (Inr (resume_content,
                     \<lparr>md_timestamp = now, md_position = position, md_skill_level = skill_level,
                      md_recruitment_type = recruitment_type,
                      md_validation_result =
                        validate_resume resume_content position recruitment_type\<rparr>),
                calls + 1, conversation_history @ [AssistantReply resume_content])
             else
               generate_loop chat now position skill_level recruitment_type max_attempts
                 (attempt + 1) (calls + 1)
                 (conversation_history @
                    [AssistantReply resume_content,
                     UserCorrection
                       (issues (validate_resume resume_content position recruitment_type))]))
      else (Inl ValueError, calls, conversation_history))"
  by pat_completeness auto
termination
  by (relation "measure (\<lambda>(chat, now, position, skill_level, recruitment_type, max_attempts,
        attempt, calls, conversation_history). max_attempts - attempt)") auto

declare generate_loop.simps [simp del]

definition generate_resume ::
  "chat \<Rightarrow> (TechPosition \<Rightarrow> SkillLevel \<Rightarrow> RecruitmentType \<Rightarrow> ustr) \<Rightarrow> ustr \<Rightarrow> TechPosition \<Rightarrow>
     SkillLevel \<Rightarrow> RecruitmentType \<Rightarrow> nat \<Rightarrow> (exn + ustr \<times> metadata) \<times> nat \<times> turn list"
where
  "generate_resume chat prompt now position skill_level recruitment_type calls =
     generate_loop chat now position skill_level recruitment_type 5 0 calls
       [SystemTurn, UserPrompt (prompt position skill_level recruitment_type)]"

subsection \<open>Batch generation\<close>

text \<open>
  The state of \<open>batch_generate_resumes\<close>: the resumes of \<open>generated_data\<close>, the two
  counters, and the number of calls of the service.  Writing the data to the output file
  is taken to succeed.
\<close>

record resume_entry =
  entry_metadata :: metadata
  entry_content :: ustr

record batch_state =
  resumes :: "resume_entry list"
  total_generated :: nat
  total_errors :: nat
  chat_calls :: nat

definition resume_exists ::
  "batch_state \<Rightarrow> TechPosition \<Rightarrow> RecruitmentType \<Rightarrow> SkillLevel \<Rightarrow> bool"
where
  "resume_exists st position recruitment_type skill_level =
     list_ex (\<lambda>resume.
         md_position (entry_metadata resume) = position \<and>
         md_recruitment_type (entry_metadata resume) = recruitment_type \<and>
         md_skill_level (entry_metadata resume) = skill_level)
       (resumes st)"

text \<open>
  The body of the innermost loop, with its \<open>try\<close> and \<open>except Exception\<close>: an item that
  exists is skipped; a generated resume is appended and counted; an exception of
  \<open>generate_resume\<close> is counted as an error, and the loop goes on.
\<close>

definition batch_item ::
  "chat \<Rightarrow> (TechPosition \<Rightarrow> SkillLevel \<Rightarrow> RecruitmentType \<Rightarrow> ustr) \<Rightarrow> ustr \<Rightarrow> TechPosition \<Rightarrow>
     RecruitmentType \<Rightarrow> SkillLevel \<Rightarrow> batch_state \<Rightarrow> batch_state"
where
  "batch_item chat prompt now position recruitment_type skill_level st =
     (if resume_exists st position recruitment_type skill_level then st
      else
        case generate_resume chat prompt now position skill_level recruitment_type (chat_calls st) of
          (Inr (resume_content, md), calls', _) \<Rightarrow>
            st\<lparr>resumes := resumes st @ [\<lparr>entry_metadata = md, entry_content = resume_content\<rparr>],
               total_generated := total_generated st + 1,
               chat_calls := calls'\<rparr>
        | (Inl e, calls', _) \<Rightarrow>
            st\<lparr>total_errors := total_errors st + 1, chat_calls := calls'\<rparr>)"

fun skill_level_loop ::
  "chat \<Rightarrow> (TechPosition \<Rightarrow> SkillLevel \<Rightarrow> RecruitmentType \<Rightarrow> ustr) \<Rightarrow> ustr \<Rightarrow> TechPosition \<Rightarrow>
     RecruitmentType \<Rightarrow> SkillLevel list \<Rightarrow> batch_state \<Rightarrow> batch_state"
where
  "skill_level_loop chat prompt now position recruitment_type [] st = st"
| "skill_level_loop chat prompt now position recruitment_type (skill_level # skill_levels) st =
     skill_level_loop chat prompt now position recruitment_type skill_levels
       (batch_item chat prompt now position recruitment_type skill_level st)"

text \<open>
  The two outer loops.  An exception of \<open>get_applicable_skill_levels\<close> is raised outside
  the \<open>try\<close> of the items and ends the batch; it is returned with the state reached.
\<close>

fun recruitment_type_loop ::
  "chat \<Rightarrow> (TechPosition \<Rightarrow> SkillLevel \<Rightarrow> RecruitmentType \<Rightarrow> ustr) \<Rightarrow> ustr \<Rightarrow> TechPosition \<Rightarrow>
     RecruitmentType list \<Rightarrow> batch_state \<Rightarrow> exn option \<times> batch_state"
where
  "recruitment_type_loop chat prompt now position [] st = (None, st)"
| "recruitment_type_loop chat prompt now position (recruitment_type # recruitment_types) st =
     (case get_applicable_skill_levels recruitment_type of
        Inl e \<Rightarrow> (Some e, st)
      | Inr skill_levels \<Rightarrow>
          recruitment_type_loop chat prompt now position recruitment_types
            (skill_level_loop chat prompt now position recruitment_type skill_levels st))"

fun position_loop ::
  "chat \<Rightarrow> (TechPosition \<Rightarrow> SkillLevel \<Rightarrow> RecruitmentType \<Rightarrow> ustr) \<Rightarrow> ustr \<Rightarrow>
     TechPosition list \<Rightarrow> batch_state \<Rightarrow> exn option \<times> batch_state"
where
  "position_loop chat prompt now [] st = (None, st)"
| "position_loop chat prompt now (position # positions) st =
     (case recruitment_type_loop chat prompt now position
             (get_applicable_recruitment_types position) st of
        (Some e, st') \<Rightarrow> (Some e, st')
      | (None, st') \<Rightarrow> position_loop chat prompt now positions st')"

definition batch_generate_resumes ::
  "chat \<Rightarrow> (TechPosition \<Rightarrow> SkillLevel \<Rightarrow> RecruitmentType \<Rightarrow> ustr) \<Rightarrow> ustr \<Rightarrow> batch_state \<Rightarrow>
     exn option \<times> batch_state"
where
  "batch_generate_resumes chat prompt now st =
     position_loop chat prompt now all_positions (st\<lparr>total_generated := 0, total_errors := 0\<rparr>)"

text \<open>
  A reply fails when the call raised an exception or the resume it carries is not valid.
\<close>

definition reply_fails :: "chat \<Rightarrow> TechPosition \<Rightarrow> RecruitmentType \<Rightarrow> nat \<Rightarrow> turn list \<Rightarrow> bool" where
  "reply_fails chat position recruitment_type n history =
     (case chat n history of
        None \<Rightarrow> True
      | Some resume_content \<Rightarrow> \<not> is_valid (validate_resume resume_content position recruitment_type))"

text \<open>
  The number of items of the batch: the skill levels of the recruitment types of a
  position, and of all positions.
\<close>

definition level_count :: "RecruitmentType list \<Rightarrow> nat" where
  "level_count recruitment_types =
     sum_list (map (\<lambda>rt. case get_applicable_skill_levels rt of
                            Inl e \<Rightarrow> 0 | Inr skill_levels \<Rightarrow> length skill_levels)
                 recruitment_types)"

definition item_count :: "TechPosition list \<Rightarrow> nat" where
  "item_count positions =
     sum_list (map (\<lambda>p. level_count (get_applicable_recruitment_types p)) positions)"

section \<open>The batch processor (judge\_resumes)\<close>

text \<open>
  A record of the input has an \<open>id\<close> and the rest of its fields, which the processor
  does not look at; a processed record has an \<open>evaluation\<close> in addition.  A file is
  absent, present but not parsable as JSON (\<open>json.load\<close> raises \<open>JSONDecodeError\<close>), or
  holds a list of processed records.  The input file has been read: the list
  \<open>all_resumes\<close> is a parameter.  The processor of judge\_resumes\_simple is the same
  with the evaluation of that module.
\<close>

record resume =
  rid :: nat
  body :: ustr

record processed_resume =
  pid :: nat
  pbody :: ustr
  evaluation_of :: evaluation

datatype 'a file_state = Absent | Corrupt | Content 'a

record files =
  output_file :: "processed_resume list file_state"
  temp_file :: "processed_resume list file_state"

datatype event =
    ReadOutput
  | ReadTemp
  | InfoLoaded nat nat
  | InfoRecovered nat nat
  | WarnOutputCorrupted
  | WarnTempCorrupted
  | InfoAllProcessed
  | ErrorProcessing nat ustr
  | ErrorSaving

text \<open>
  \<open>_load_progress\<close>: the processed records, the pending records, and what was read
  and logged.  The temp file is looked at in the \<open>elif\<close> branch, that is when the output
  file does not exist.
\<close>

definition pending_of :: "processed_resume list \<Rightarrow> resume list \<Rightarrow> resume list" where
  "pending_of processed_resumes all_resumes =
     filter (\<lambda>resume. rid resume \<notin> set (map pid processed_resumes)) all_resumes"

definition load_progress ::
  "files \<Rightarrow> resume list \<Rightarrow> processed_resume list \<times> resume list \<times> event list"
where
  "load_progress fs all_resumes =
     (case output_file fs of
        Content processed_resumes \<Rightarrow>
          (processed_resumes, pending_of processed_resumes all_resumes,
           [ReadOutput,
            InfoLoaded (length processed_resumes)
              (length (pending_of processed_resumes all_resumes))])
      | Corrupt \<Rightarrow> ([], all_resumes, [ReadOutput, WarnOutputCorrupted])
      | Absent \<Rightarrow>
          (case temp_file fs of
             Content processed_resumes \<Rightarrow>
               (processed_resumes, pending_of processed_resumes all_resumes,
                [ReadTemp,
                 InfoRecovered (length processed_resumes)
                   (length (pending_of processed_resumes all_resumes))])
           | Corrupt \<Rightarrow> ([], all_resumes, [ReadTemp, WarnTempCorrupted])
           | Absent \<Rightarrow> ([], all_resumes, [])))"

text \<open>
  \<open>_save_progress\<close>.  What happens to the files is decided by the environment: the
  save succeeds; opening the temp file for writing fails; writing it fails half-way and
  leaves a file that cannot be parsed; or the temp file is written and replacing the
  output file fails.  The first two failures are exceptions that \<open>_save_progress\<close> does
  not catch; the last one is caught and logged.
\<close>

datatype save_event = SaveOk | OpenFails | DumpFails | ReplaceFails

definition save_progress ::
  "save_event \<Rightarrow> processed_resume list \<Rightarrow> files \<Rightarrow> exn option \<times> files \<times> event list"
where
  "save_progress ev processed_resumes fs =
     (case ev of
        OpenFails \<Rightarrow> (Some OSError, fs, [])
      | DumpFails \<Rightarrow> (Some OSError, fs\<lparr>temp_file := Corrupt\<rparr>, [])
      | ReplaceFails \<Rightarrow> (None, fs\<lparr>temp_file := Content processed_resumes\<rparr>, [ErrorSaving])
      | SaveOk \<Rightarrow> (None, fs\<lparr>output_file := Content processed_resumes, temp_file := Absent\<rparr>, []))"

text \<open>
  The futures complete in an order the program does not control.  The order is given by a
  list of choices: each choice picks one of the futures that are still running; when the
  choices run out, the rest completes in the order of submission.
\<close>

fun as_completed :: "nat list \<Rightarrow> 'a list \<Rightarrow> 'a list" where
  "as_completed choices [] = []"
| "as_completed [] xs = xs"
| "as_completed (c # choices) (x # xs) =
     (x # xs) ! (c mod length (x # xs)) #
     as_completed choices
       (take (c mod length (x # xs)) (x # xs) @ drop (Suc (c mod length (x # xs))) (x # xs))"

text \<open>
  What \<open>future.result()\<close> gives for a submitted record: the evaluation returned by
  \<open>evaluate_multiple\<close>, or the exception it raised.
\<close>

datatype worker_result = Returned evaluation | Raised ustr

definition with_evaluation :: "resume \<Rightarrow> evaluation \<Rightarrow> processed_resume" where
  "with_evaluation resume ev = \<lparr>pid = rid resume, pbody = body resume, evaluation_of = ev\<rparr>"

record run =
  processed :: "processed_resume list"
  disk :: files
  logged :: "event list"
  aborted :: "exn option"
  saves :: nat
  submitted :: "resume list"

text \<open>
  The loop over the completed futures.  Each record is appended with its evaluation, or
  with an error evaluation when its worker raised an exception; then the progress is
  saved.  An exception of the save leaves the loop and \<open>process_resumes\<close>.  The update of
  the progress bar has no effect on the state and is left out.  \<open>outcome\<close> gives the
  result of a future by its index of submission, \<open>save_events\<close> the fate of each save.
\<close>

definition completed_record :: "(nat \<Rightarrow> worker_result) \<Rightarrow> ustr \<Rightarrow> nat \<Rightarrow> resume \<Rightarrow> processed_resume" where
  "completed_record outcome now j resume =
     (case outcome j of
        Returned evaluation_results \<Rightarrow> with_evaluation resume evaluation_results
      | Raised e \<Rightarrow> with_evaluation resume (EvalError e now))"

definition worker_errors :: "(nat \<Rightarrow> worker_result) \<Rightarrow> nat \<Rightarrow> resume \<Rightarrow> event list" where
  "worker_errors outcome j resume =
     (case outcome j of Returned _ \<Rightarrow> [] | Raised e \<Rightarrow> [ErrorProcessing (rid resume) e])"

fun collect ::
  "(nat \<Rightarrow> worker_result) \<Rightarrow> ustr \<Rightarrow> (nat \<Rightarrow> save_event) \<Rightarrow> (nat \<times> resume) list \<Rightarrow> run \<Rightarrow> run"
where
  "collect outcome now save_events [] st = st"
| "collect outcome now save_events ((j, resume) # rest) st =
     (case save_progress (save_events (saves st))
             (processed st @ [completed_record outcome now j resume]) (disk st) of
        (Some e, fs, msgs) \<Rightarrow>
          st\<lparr>processed := processed st @ [completed_record outcome now j resume], disk := fs,
             logged := logged st @ worker_errors outcome j resume @ msgs,
             aborted := Some e, saves := saves st + 1\<rparr>
      | (None, fs, msgs) \<Rightarrow>
          collect outcome now save_events rest
            (st\<lparr>processed := processed st @ [completed_record outcome now j resume], disk := fs,
                logged := logged st @ worker_errors outcome j resume @ msgs,
                saves := saves st + 1\<rparr>))"

definition process_resumes ::
  "files \<Rightarrow> resume list \<Rightarrow> (nat \<Rightarrow> worker_result) \<Rightarrow> ustr \<Rightarrow> (nat \<Rightarrow> save_event) \<Rightarrow> nat list \<Rightarrow> run"
where
  "process_resumes fs all_resumes outcome now save_events choices =
     (case load_progress fs all_resumes of
        (processed_resumes, pending_resumes, msgs) \<Rightarrow>
          if pending_resumes = [] then
            \<lparr>processed = processed_resumes, disk = fs, logged = msgs @ [InfoAllProcessed],
             aborted = None, saves = 0, submitted = []\<rparr>
          else
            collect outcome now save_events
              (as_completed choices (zip [0 ..< length pending_resumes] pending_resumes))
              \<lparr>processed = processed_resumes, disk = fs, logged = msgs, aborted = None,
               saves = 0, submitted = pending_resumes\<rparr>)"

section \<open>Inputs of the examples\<close>

text \<open>A service that replies 80, 85 and 90 to the first three calls.\<close>

definition replies_80_85_90 :: client where
  "replies_80_85_90 n =
     (if n = 0 then Some (lit ''80'') else if n = 1 then Some (lit ''85'') else Some (lit ''90''))"


text \<open>
  A response with the three metrics within their bounds (35, 30 and 18), in the three
  notations the pattern accepts, and a response whose first metric is given as 50, above
  its maximum of 40.  The lines are separated by a line feed.
\<close>

definition resp_valid :: ustr where
  "resp_valid =
     [0x4E13, 0x4E1A, 0x80FD, 0x529B, 0xFF1A] @ lit ''35'' @ [0x5206, 0xA] @
     [0x9879, 0x76EE, 0x7ECF, 0x9A8C] @ lit '': 30'' @ [0xA] @
     [0x7EFC, 0x5408, 0x7D20, 0x8D28] @ lit '' 18''"

definition resp_out_of_bounds :: ustr where
  "resp_out_of_bounds =
     [0x4E13, 0x4E1A, 0x80FD, 0x529B, 0xFF1A] @ lit ''50'' @ [0xA] @
     [0x9879, 0x76EE, 0x7ECF, 0x9A8C, 0xFF1A] @ lit ''30'' @ [0xA] @
     [0x7EFC, 0x5408, 0x7D20, 0x8D28, 0xFF1A] @ lit ''10''"

text \<open>A service whose first reply is out of bounds and whose later replies are valid.\<close>

definition replies_retry :: client where
  "replies_retry n = (if n = 0 then Some resp_out_of_bounds else Some resp_valid)"

text \<open>A service whose replies are all out of bounds.\<close>

definition replies_out_of_bounds :: client where
  "replies_out_of_bounds n = Some resp_out_of_bounds"

text \<open>
  A resume that consists of the seven markers of a campus recruitment and nothing else,
  a service that always replies with it, and a service of which every second call fails
  and the other calls reply with a text without markers.
\<close>

definition resume_markers_only :: ustr where
  "resume_markers_only = lit ''{NAME}{AGE}{GENDER}{MARRIAGE}{HUKOU}{DISABILITY}{POLITICAL}''"

definition chat_markers_only :: chat where
  "chat_markers_only n history = Some resume_markers_only"

definition chat_failing :: chat where
  "chat_failing n history = (if even n then None else Some (lit ''resume''))"

definition no_prompt :: "TechPosition \<Rightarrow> SkillLevel \<Rightarrow> RecruitmentType \<Rightarrow> ustr" where
  "no_prompt position skill_level recruitment_type = []"

definition empty_batch :: batch_state where
  "empty_batch = \<lparr>resumes = [], total_generated = 0, total_errors = 0, chat_calls = 0\<rparr>"

text \<open>
  Two input records, a processed record for the first, and three states of the files:
  nothing on disk, a checkpoint with the first record in the output file, and an output
  file that cannot be parsed beside a temp file with the first record.
\<close>

definition resume_1 :: resume where
  "resume_1 = \<lparr>rid = 1, body = lit ''first''\<rparr>"

definition resume_2 :: resume where
  "resume_2 = \<lparr>rid = 2, body = lit ''second''\<rparr>"

definition some_evaluation :: evaluation where
  "some_evaluation = EvalError failed_message []"

definition processed_1 :: processed_resume where
  "processed_1 = with_evaluation resume_1 some_evaluation"

definition processed_2 :: processed_resume where
  "processed_2 = with_evaluation resume_2 some_evaluation"

definition no_files :: files where
  "no_files = \<lparr>output_file = Absent, temp_file = Absent\<rparr>"

definition checkpoint_1 :: files where
  "checkpoint_1 = \<lparr>output_file = Content [processed_1], temp_file = Absent\<rparr>"

definition corrupt_output :: files where
  "corrupt_output = \<lparr>output_file = Corrupt, temp_file = Content [processed_1]\<rparr>"

definition temp_only :: files where
  "temp_only = \<lparr>output_file = Absent, temp_file = Content [processed_1]\<rparr>"

definition all_returned :: "nat \<Rightarrow> worker_result" where
  "all_returned j = Returned some_evaluation"

text \<open>
  The state of a run that starts with nothing on disk and two pending records, and an
  environment in which the first save fails to replace the output file and the later
  saves succeed.
\<close>

definition initial_run :: run where
  "initial_run = \<lparr>processed = [], disk = no_files, logged = [], aborted = None, saves = 0,
     submitted = [resume_1, resume_2]\<rparr>"

definition replace_fails_once :: "nat \<Rightarrow> save_event" where
  "replace_fails_once k = (if k = 0 then ReplaceFails else SaveOk)"

section \<open>Properties of the character tables\<close>

lemmas text_eval = lit_def isdecimal_def decimal_value_def decimal_zeros_def isspace_def
  strip_def digit_of_def digits_value_def py_int_def

lemmas re_eval = startswith_def boundary_def set_group_def re_search_def pattern_def
  first_group_def score_lines_def extract_scores_def word_basic_def

lemma isspace_cases:
  "isspace c \<Longrightarrow> c \<in> {0x9, 0xA, 0xB, 0xC, 0xD, 0x1C, 0x1D, 0x1E, 0x1F, 0x20, 0x85, 0xA0,
     0x1680, 0x2000, 0x2001, 0x2002, 0x2003, 0x2004, 0x2005, 0x2006, 0x2007, 0x2008,
     0x2009, 0x200A, 0x2028, 0x2029, 0x202F, 0x205F, 0x3000}"
  unfolding isspace_def by (elim disjE conjE; simp; arith)

lemma space_not_decimal: "isspace c \<Longrightarrow> \<not> isdecimal c"
proof -
  assume "isspace c"
  from isspace_cases [OF this] show ?thesis
    by (elim insertE emptyE; simp add: isdecimal_def decimal_value_def decimal_zeros_def)
qed

lemma filter_dropWhile_disjoint:
  assumes "\<And>x. Q x \<Longrightarrow> \<not> P x"
  shows "filter P (dropWhile Q xs) = filter P xs"
  using assms by (induction xs) auto

lemma filter_decimal_strip: "filter isdecimal (strip s) = filter isdecimal s"
proof -
  have "filter isdecimal (strip s) =
        rev (filter isdecimal (dropWhile isspace (rev (dropWhile isspace s))))"
    by (simp add: strip_def rev_filter)
  also have "\<dots> = rev (filter isdecimal (rev (dropWhile isspace s)))"
    by (simp add: filter_dropWhile_disjoint space_not_decimal)
  also have "\<dots> = filter isdecimal (dropWhile isspace s)"
    by (simp add: rev_filter)
  also have "\<dots> = filter isdecimal s"
    by (simp add: filter_dropWhile_disjoint space_not_decimal)
  finally show ?thesis .
qed

lemma isdecimal_below_0x660: "c < 0x660 \<Longrightarrow> isdecimal c = (0x30 \<le> c \<and> c \<le> 0x39)"
proof -
  assume c: "c < 0x660"
  have "List.find (\<lambda>z. z \<le> c \<and> c < z + 10) (tl decimal_zeros) = None"
    unfolding find_None_iff decimal_zeros_def using c by simp
  then have "List.find (\<lambda>z. z \<le> c \<and> c < z + 10) decimal_zeros =
      (if 0x30 \<le> c \<and> c < 0x30 + 10 then Some 0x30 else None)"
    by (simp add: decimal_zeros_def)
  then show ?thesis by (auto simp: isdecimal_def decimal_value_def)
qed

section \<open>The single-score extractor: what it returns\<close>

lemma extract_score_eq:
  "extract_score maxd response =
     (let ds = filter isdecimal response in
      if ds = [] \<or> (maxd \<noteq> 0 \<and> maxd < length ds) \<or> 100 < digits_value ds then None
      else Some (int (digits_value ds)))"
  by (simp add: extract_score_def re_sub_non_digits_def filter_decimal_strip py_int_def
      Let_def list_all_iff)

lemma extract_score_85_100: "extract_score 4300 (lit ''85/100'') = None"
  by (simp add: extract_score_eq text_eval)

lemma extract_score_8_5: "extract_score 4300 (lit ''8.5'') = Some 85"
  by (simp add: extract_score_eq text_eval)

text \<open>
  Claim C10.  The single-score extractor keeps the decimal digits of the response, in
  order, and reads them as one number \<open>n\<close>: the result is either \<open>None\<close> or \<open>n\<close>, and
  then \<open>n\<close> is at most 100.  It is \<open>None\<close> exactly when there is no digit, when \<open>n\<close>
  exceeds 100, or when there are more digits than the interpreter converts (a limit that
  only strings of more than 4300 digits reach by default, and none when it is switched
  off).  So \<open>85/100\<close> is rejected, its digits reading 85100, and \<open>8.5\<close> is read as 85.
\<close>

theorem extract_score_reads_all_digits:
  "(extract_score maxd response = None \<or>
      (extract_score maxd response = Some (int (digits_value (filter isdecimal response))) \<and>
       0 \<le> int (digits_value (filter isdecimal response)) \<and>
       int (digits_value (filter isdecimal response)) \<le> 100)) \<and>
   (extract_score maxd response = None \<longleftrightarrow>
      (filter isdecimal response = [] \<or> 100 < digits_value (filter isdecimal response) \<or>
       (maxd \<noteq> 0 \<and> maxd < length (filter isdecimal response)))) \<and>
   (extract_score 0 response = None \<longleftrightarrow>
      (filter isdecimal response = [] \<or> 100 < digits_value (filter isdecimal response))) \<and>
   filter isdecimal (lit ''85/100'') = lit ''85100'' \<and>
   extract_score 4300 (lit ''85/100'') = None \<and>
   filter isdecimal (lit ''8.5'') = lit ''85'' \<and>
   extract_score 4300 (lit ''8.5'') = Some 85"
proof -
  let ?ds = "filter isdecimal response"
  have a: "extract_score maxd response = None \<or>
      (extract_score maxd response = Some (int (digits_value ?ds)) \<and>
       0 \<le> int (digits_value ?ds) \<and> int (digits_value ?ds) \<le> 100)"
    by (simp add: extract_score_eq Let_def)
  have b: "extract_score maxd response = None \<longleftrightarrow>
      (?ds = [] \<or> 100 < digits_value ?ds \<or> (maxd \<noteq> 0 \<and> maxd < length ?ds))"
    by (auto simp add: extract_score_eq Let_def)
  have c: "extract_score 0 response = None \<longleftrightarrow> (?ds = [] \<or> 100 < digits_value ?ds)"
    by (auto simp add: extract_score_eq Let_def)
  have d: "filter isdecimal (lit ''85/100'') = lit ''85100''"
    by (simp add: text_eval)
  have e: "filter isdecimal (lit ''8.5'') = lit ''85''"
    by (simp add: text_eval)
  from a b c d e extract_score_85_100 extract_score_8_5 show ?thesis by blast
qed

section \<open>Aggregation of the samples\<close>

lemma py_mean_80_85_90: "py_mean [80, 85, 90] = Some 85"
  by (simp add: py_mean_def)

lemma py_stdev_80_85_90: "py_stdev [80, 85, 90] = Some 5"
proof -
  have "sqrt 25 = 5" by (rule real_sqrt_unique) simp_all
  then show ?thesis by (simp add: py_stdev_def Let_def power2_eq_square)
qed

lemma sqrt_50_3_not_5: "sqrt (50 / 3) \<noteq> 5"
proof
  assume "sqrt (50 / 3) = 5"
  then have "(sqrt (50 / 3))\<^sup>2 = 5\<^sup>2" by simp
  then show False by simp
qed

lemma aggregate_simple_80_85_90:
  "aggregate_simple [80, 85, 90] now =
     Inr (SimpleStats \<lparr>stats_scores = [80, 85, 90], stats_mean = 85, stats_std = 5\<rparr> now)"
  by (simp add: aggregate_simple_def py_mean_80_85_90 py_stdev_80_85_90)

lemma evaluate_simple_loop_80_85_90:
  "evaluate_simple_loop 4300 replies_80_85_90 3 ([], 0) = ([80, 85, 90], 3)"
proof -
  have e0: "extract_score 4300 (lit ''80'') = Some 80"
    by (simp add: extract_score_eq text_eval)
  have e1: "extract_score 4300 (lit ''85'') = Some 85"
    by (simp add: extract_score_eq text_eval)
  have e2: "extract_score 4300 (lit ''90'') = Some 90"
    by (simp add: extract_score_eq text_eval)
  have n: "lit ''80'' \<noteq> []" "lit ''85'' \<noteq> []" "lit ''90'' \<noteq> []"
    by (simp_all add: lit_def)
  have s0: "evaluate_single_simple 4300 replies_80_85_90 3 0 = (Some 80, 1)"
    by (simp add: evaluate_single_simple_def replies_80_85_90_def e0 n)
  have s1: "evaluate_single_simple 4300 replies_80_85_90 3 1 = (Some 85, 2)"
    by (simp add: evaluate_single_simple_def replies_80_85_90_def e1 n)
  have s2: "evaluate_single_simple 4300 replies_80_85_90 3 2 = (Some 90, 3)"
    by (simp add: evaluate_single_simple_def replies_80_85_90_def e2 n)
  have "evaluate_simple_loop 4300 replies_80_85_90 (Suc (Suc (Suc 0))) ([], 0) = ([80, 85, 90], 3)"
    using s0 s1 s2 by simp
  then show ?thesis by (simp add: numeral_3_eq_3)
qed

text \<open>
  Claim C3, as the code has it.  For the samples 80, 85 and 90 the aggregation step gives
  the mean 85 and the standard deviation 5, which is the sample standard deviation (the
  squared deviations divided by \<open>n - 1\<close>) that \<open>statistics.stdev\<close> computes; for a
  single sample it gives the standard deviation 0.  This holds for the aggregation of the
  single-score variant, run from three replies of the service, and for the per-metric
  aggregation of judge\_resumes.
\<close>

theorem aggregation_80_85_90:
  "aggregate_simple [80, 85, 90] now =
     Inr (SimpleStats \<lparr>stats_scores = [80, 85, 90], stats_mean = 85, stats_std = 5\<rparr> now) \<and>
   evaluate_multiple_simple 4300 replies_80_85_90 now 3 =
     (Inr (SimpleStats \<lparr>stats_scores = [80, 85, 90], stats_mean = 85, stats_std = 5\<rparr> now), 3) \<and>
   metric_stats [80, 85, 90] = Inr \<lparr>scores = [80, 85, 90], mean = Some 85, std = Some 5\<rparr> \<and>
   aggregate_simple [x] now =
     Inr (SimpleStats \<lparr>stats_scores = [x], stats_mean = real_of_int x, stats_std = 0\<rparr> now) \<and>
   metric_stats [x] = Inr \<lparr>scores = [x], mean = Some (real_of_int x), std = Some 0\<rparr>"
proof -
  have "evaluate_multiple_simple 4300 replies_80_85_90 now 3 =
     (Inr (SimpleStats \<lparr>stats_scores = [80, 85, 90], stats_mean = 85, stats_std = 5\<rparr> now), 3)"
    by (simp add: evaluate_multiple_simple_def evaluate_simple_loop_80_85_90
        aggregate_simple_80_85_90)
  moreover have "metric_stats [80, 85, 90] =
      Inr \<lparr>scores = [80, 85, 90], mean = Some 85, std = Some 5\<rparr>"
    by (simp add: metric_stats_def py_mean_80_85_90 py_stdev_80_85_90)
  moreover have "aggregate_simple [x] now =
     Inr (SimpleStats \<lparr>stats_scores = [x], stats_mean = real_of_int x, stats_std = 0\<rparr> now)"
    by (simp add: aggregate_simple_def py_mean_def)
  moreover have "metric_stats [x] =
      Inr \<lparr>scores = [x], mean = Some (real_of_int x), std = Some 0\<rparr>"
    by (simp add: metric_stats_def py_mean_def)
  ultimately show ?thesis using aggregate_simple_80_85_90 by simp
qed

text \<open>
  The standard deviation the aggregation gives for 80, 85 and 90 is not the population
  standard deviation, the square root of \<open>50 / 3\<close>.
\<close>

theorem aggregation_not_population_std:
  "aggregate_simple [80, 85, 90] [] \<noteq>
     Inr (SimpleStats \<lparr>stats_scores = [80, 85, 90], stats_mean = 85, stats_std = sqrt (50 / 3)\<rparr> [])"
  using sqrt_50_3_not_5 by (simp add: aggregate_simple_80_85_90)

section \<open>Score extraction: the bounds of a sample\<close>

lemma in_bounds_iff:
  "in_bounds w maxd lines mt sc \<longleftrightarrow>
     0 \<le> sc \<and> sc \<le> max_scores mt \<and>
     (\<exists>line \<in> set lines. \<exists>ds. extracted w mt line = Some ds \<and> py_int maxd ds = Some sc)"
  by (auto simp: in_bounds_def list_ex_iff split: option.splits)

lemma scan_lines_found:
  "scan_lines w maxd mt lines bad = Some (Some sc, bad') \<Longrightarrow> in_bounds w maxd lines mt sc"
proof (induction lines arbitrary: bad)
  case Nil
  then show ?case by simp
next
  case (Cons line lines)
  show ?case
  proof (cases "extracted w mt line")
    case None
    with Cons.prems have "scan_lines w maxd mt lines bad = Some (Some sc, bad')"
      by (auto simp: extracted_def split: option.splits)
    from Cons.IH [OF this] show ?thesis by (auto simp: in_bounds_iff)
  next
    case (Some ds)
    show ?thesis
    proof (cases "py_int maxd ds")
      case None
      with Some Cons.prems show ?thesis
        by (auto simp: extracted_def split: option.splits)
    next
      case (Some n)
      note n = this
      consider (a) "n < 0 \<or> n > 100" | (b) "\<not> (n < 0 \<or> n > 100)" "n > max_scores mt"
        | (c) "\<not> (n < 0 \<or> n > 100)" "\<not> n > max_scores mt" by blast
      then show ?thesis
      proof cases
        case a
        with \<open>extracted w mt line = Some ds\<close> n Cons.prems
        have "scan_lines w maxd mt lines (bad @ [OutOfRange mt n]) = Some (Some sc, bad')"
          by (auto simp: extracted_def split: option.splits)
        from Cons.IH [OF this] show ?thesis by (auto simp: in_bounds_iff)
      next
        case b
        with \<open>extracted w mt line = Some ds\<close> n Cons.prems
        have "scan_lines w maxd mt lines (bad @ [ExceedsMaximum mt (max_scores mt) n]) = Some (Some sc, bad')"
          by (auto simp: extracted_def split: option.splits)
        from Cons.IH [OF this] show ?thesis by (auto simp: in_bounds_iff)
      next
        case c
        with \<open>extracted w mt line = Some ds\<close> n Cons.prems
        have "sc = n"
          by (auto simp: extracted_def split: option.splits)
        with c \<open>extracted w mt line = Some ds\<close> n show ?thesis
          by (auto simp: in_bounds_iff)
      qed
    qed
  qed
qed

lemma scan_metrics_bounds:
  "scan_metrics w maxd mts lines tab missing bad = Some (tab', missing', bad') \<Longrightarrow>
   (\<And>m sc. tab m = Some sc \<Longrightarrow> in_bounds w maxd lines m sc) \<Longrightarrow>
   tab' m = Some sc \<Longrightarrow> in_bounds w maxd lines m sc"
proof (induction mts arbitrary: tab missing bad)
  case Nil
  then show ?case by simp
next
  case (Cons mt mts)
  show ?case
  proof (cases "scan_lines w maxd mt lines bad")
    case None
    with Cons.prems(1) show ?thesis by simp
  next
    case (Some r)
    obtain found bad1 where r: "r = (found, bad1)" by (cases r)
    show ?thesis
    proof (cases found)
      case None
      with Some r Cons.prems(1)
      have "scan_metrics w maxd mts lines tab (missing @ [mt]) bad1 = Some (tab', missing', bad')"
        by simp
      from Cons.IH [OF this Cons.prems(2) Cons.prems(3)] show ?thesis .
    next
      case (Some score)
      with \<open>scan_lines w maxd mt lines bad = Some r\<close> r Cons.prems(1)
      have 1: "scan_metrics w maxd mts lines (tab(mt \<mapsto> score)) missing bad1 = Some (tab', missing', bad')"
        by simp
      from \<open>scan_lines w maxd mt lines bad = Some r\<close> r Some
      have "in_bounds w maxd lines mt score" by (auto dest: scan_lines_found)
      then have 2: "\<And>m sc. (tab(mt \<mapsto> score)) m = Some sc \<Longrightarrow> in_bounds w maxd lines m sc"
        using Cons.prems(2) by (auto split: if_splits)
      from Cons.IH [OF 1 2 Cons.prems(3)] show ?thesis .
    qed
  qed
qed

lemma extract_scores_Some:
  assumes "extract_scores w maxd response = Some s"
  shows "in_bounds w maxd (score_lines response) Capability (capability_score s) \<and>
         in_bounds w maxd (score_lines response) Experience (experience_score s) \<and>
         in_bounds w maxd (score_lines response) Potential (potential_score s) \<and>
         total_score s = capability_score s + experience_score s + potential_score s"
proof -
  let ?lines = "score_lines response"
  from assms obtain tab missing bad c e p where
    sm: "scan_metrics w maxd [Capability, Experience, Potential] ?lines Map.empty [] [] = Some (tab, missing, bad)"
    and c: "tab Capability = Some c" and e: "tab Experience = Some e" and p: "tab Potential = Some p"
    and s: "s = \<lparr>capability_score = c, experience_score = e, potential_score = p, total_score = c + e + p\<rparr>"
    by (auto simp: extract_scores_def Let_def split: if_splits option.splits prod.splits)
  have "\<And>m sc. tab m = Some sc \<Longrightarrow> in_bounds w maxd ?lines m sc"
    by (rule scan_metrics_bounds [OF sm]) simp_all
  with c e p s show ?thesis by simp
qed

lemma extract_scores_out_of_bounds:
  assumes "\<forall>line \<in> set (score_lines response). \<forall>ds n.
             extracted w mt line = Some ds \<and> py_int maxd ds = Some n \<longrightarrow> n < 0 \<or> max_scores mt < n"
  shows "extract_scores w maxd response = None"
proof (cases "extract_scores w maxd response")
  case None
  then show ?thesis .
next
  case (Some s)
  from extract_scores_Some [OF Some]
  obtain sc where "in_bounds w maxd (score_lines response) mt sc"
    by (cases mt) auto
  with assms show ?thesis by (fastforce simp: in_bounds_iff)
qed

lemma resp_valid_sample:
  "extract_scores word_basic 4300 resp_valid =
     Some \<lparr>capability_score = 35, experience_score = 30, potential_score = 18, total_score = 83\<rparr>"
  by (simp add: resp_valid_def text_eval re_eval)

lemma resp_out_of_bounds_lines:
  "score_lines resp_out_of_bounds =
     [[0x4E13, 0x4E1A, 0x80FD, 0x529B, 0xFF1A] @ lit ''50'',
      [0x9879, 0x76EE, 0x7ECF, 0x9A8C, 0xFF1A] @ lit ''30'',
      [0x7EFC, 0x5408, 0x7D20, 0x8D28, 0xFF1A] @ lit ''10'']"
  by (simp add: resp_out_of_bounds_def text_eval re_eval)

lemma resp_out_of_bounds_capability:
  "extracted word_basic Capability ([0x4E13, 0x4E1A, 0x80FD, 0x529B, 0xFF1A] @ lit ''50'') = Some (lit ''50'')"
  "extracted word_basic Capability ([0x9879, 0x76EE, 0x7ECF, 0x9A8C, 0xFF1A] @ lit ''30'') = None"
  "extracted word_basic Capability ([0x7EFC, 0x5408, 0x7D20, 0x8D28, 0xFF1A] @ lit ''10'') = None"
  "py_int 4300 (lit ''50'') = Some 50"
  by (simp_all add: extracted_def text_eval re_eval)

lemma resp_out_of_bounds_hyp:
  "\<forall>line \<in> set (score_lines resp_out_of_bounds). \<forall>ds n.
     extracted word_basic Capability line = Some ds \<and> py_int 4300 ds = Some n \<longrightarrow>
       n < 0 \<or> max_scores Capability < n"
  using resp_out_of_bounds_capability by (auto simp: resp_out_of_bounds_lines)

text \<open>
  Claim C4.  Every sample that score extraction returns has its capability and experience
  tab between 0 and 40, its potential score between 0 and 20, and as total the sum of
  the three.  A response in which, for some metric, every value that can be extracted
  from a score line lies outside the bounds of the metric yields no sample.
\<close>

theorem extract_scores_within_bounds:
  "(extract_scores w maxd response = Some s \<longrightarrow>
      0 \<le> capability_score s \<and> capability_score s \<le> 40 \<and>
      0 \<le> experience_score s \<and> experience_score s \<le> 40 \<and>
      0 \<le> potential_score s \<and> potential_score s \<le> 20 \<and>
      total_score s = capability_score s + experience_score s + potential_score s) \<and>
   ((\<forall>line \<in> set (score_lines response). \<forall>ds n.
        extracted w mt line = Some ds \<and> py_int maxd ds = Some n \<longrightarrow> n < 0 \<or> max_scores mt < n) \<longrightarrow>
      extract_scores w maxd response = None)"
proof (intro conjI impI)
  assume "extract_scores w maxd response = Some s"
  from extract_scores_Some [OF this]
  show "0 \<le> capability_score s" "capability_score s \<le> 40"
    "0 \<le> experience_score s" "experience_score s \<le> 40"
    "0 \<le> potential_score s" "potential_score s \<le> 20"
    "total_score s = capability_score s + experience_score s + potential_score s"
    by (simp_all add: in_bounds_iff)
next
  assume "\<forall>line \<in> set (score_lines response). \<forall>ds n.
        extracted w mt line = Some ds \<and> py_int maxd ds = Some n \<longrightarrow> n < 0 \<or> max_scores mt < n"
  then show "extract_scores w maxd response = None"
    by (rule extract_scores_out_of_bounds)
qed

theorem extract_scores_within_bounds_witness:
  "extract_scores word_basic 4300 resp_valid =
     Some \<lparr>capability_score = 35, experience_score = 30, potential_score = 18, total_score = 83\<rparr> \<and>
   capability_score \<lparr>capability_score = 35, experience_score = 30, potential_score = 18,
     total_score = 83\<rparr> \<le> 40 \<and>
   extracted word_basic Capability (hd (score_lines resp_out_of_bounds)) = Some (lit ''50'') \<and>
   extract_scores word_basic 4300 resp_out_of_bounds = None"
proof -
  note t1 = extract_scores_within_bounds [of word_basic 4300 resp_valid
      "\<lparr>capability_score = 35, experience_score = 30, potential_score = 18, total_score = 83\<rparr>"
      Capability]
  note t2 = extract_scores_within_bounds [of word_basic 4300 resp_out_of_bounds
      "\<lparr>capability_score = 35, experience_score = 30, potential_score = 18, total_score = 83\<rparr>"
      Capability]
  from t1 resp_valid_sample
  have "capability_score \<lparr>capability_score = 35, experience_score = 30, potential_score = 18,
     total_score = 83\<rparr> \<le> 40" by blast
  moreover from t2 resp_out_of_bounds_hyp
  have "extract_scores word_basic 4300 resp_out_of_bounds = None" by blast
  moreover have "extracted word_basic Capability (hd (score_lines resp_out_of_bounds)) = Some (lit ''50'')"
    by (simp only: resp_out_of_bounds_lines list.sel resp_out_of_bounds_capability)
  ultimately show ?thesis using resp_valid_sample by blast
qed

section \<open>The retry loop of \<open>evaluate_single\<close>\<close>

lemma extract_scores_Nil: "extract_scores w maxd [] = None"
  by (simp add: extract_scores_def score_lines_def strip_def)

lemma loop_usable:
  "retry_count < max_retries \<Longrightarrow> usable w maxd client calls \<Longrightarrow>
   evaluate_single_loop w maxd client max_retries retry_count calls =
     (extract_scores w maxd (the (client calls)), calls + 1)"
  by (subst evaluate_single_loop.simps) (auto simp: usable_def split: option.splits)

lemma loop_not_usable:
  "retry_count < max_retries \<Longrightarrow> \<not> usable w maxd client calls \<Longrightarrow>
   evaluate_single_loop w maxd client max_retries retry_count calls =
     evaluate_single_loop w maxd client max_retries (retry_count + 1) (calls + 1)"
  by (subst evaluate_single_loop.simps) (auto simp: usable_def split: option.splits)

lemma loop_done:
  "\<not> retry_count < max_retries \<Longrightarrow>
   evaluate_single_loop w maxd client max_retries retry_count calls = (None, calls)"
  by (subst evaluate_single_loop.simps) simp

lemma loop_all_fail:
  "(\<forall>n < max_retries - retry_count. \<not> usable w maxd client (calls + n)) \<Longrightarrow>
   evaluate_single_loop w maxd client max_retries retry_count calls =
     (None, calls + (max_retries - retry_count))"
proof (induction "max_retries - retry_count" arbitrary: retry_count calls)
  case 0
  then show ?case by (simp add: loop_done)
next
  case (Suc d)
  from Suc.hyps(2) have lt: "retry_count < max_retries" and d: "d = max_retries - (retry_count + 1)"
    by arith+
  from Suc.prems have nu: "\<not> usable w maxd client calls"
    using Suc.hyps(2) by (metis add.right_neutral zero_less_Suc)
  have "\<forall>n < max_retries - (retry_count + 1). \<not> usable w maxd client ((calls + 1) + n)"
  proof (intro allI impI)
    fix n assume "n < max_retries - (retry_count + 1)"
    then have "Suc n < max_retries - retry_count" by arith
    with Suc.prems have "\<not> usable w maxd client (calls + Suc n)" by blast
    then show "\<not> usable w maxd client ((calls + 1) + n)" by simp
  qed
  from Suc.hyps(1) [OF d this] lt nu show ?case
    by (simp add: loop_not_usable)
qed

lemma loop_first_usable:
  "k < max_retries - retry_count \<Longrightarrow> usable w maxd client (calls + k) \<Longrightarrow>
   (\<forall>n < k. \<not> usable w maxd client (calls + n)) \<Longrightarrow>
   evaluate_single_loop w maxd client max_retries retry_count calls =
     (extract_scores w maxd (the (client (calls + k))), calls + k + 1)"
proof (induction k arbitrary: retry_count calls)
  case 0
  then show ?case by (simp add: loop_usable)
next
  case (Suc k)
  from Suc.prems(1) have lt: "retry_count < max_retries" and k: "k < max_retries - (retry_count + 1)"
    by arith+
  from Suc.prems(3) have nu: "\<not> usable w maxd client calls"
    by (metis add.right_neutral zero_less_Suc)
  have u: "usable w maxd client ((calls + 1) + k)" using Suc.prems(2) by simp
  have "\<forall>n < k. \<not> usable w maxd client ((calls + 1) + n)"
  proof (intro allI impI)
    fix n assume "n < k"
    then have "Suc n < Suc k" by simp
    with Suc.prems(3) have "\<not> usable w maxd client (calls + Suc n)" by blast
    then show "\<not> usable w maxd client ((calls + 1) + n)" by simp
  qed
  from Suc.IH [OF k u this] lt nu show ?case
    by (simp add: loop_not_usable)
qed

lemma loop_result:
  "evaluate_single_loop w maxd client max_retries retry_count calls = (r, calls') \<Longrightarrow>
   calls \<le> calls' \<and> calls' \<le> calls + (max_retries - retry_count) \<and>
   (retry_count < max_retries \<longrightarrow> calls < calls') \<and>
   (\<forall>s. r = Some s \<longrightarrow> (\<exists>n resp. calls \<le> n \<and> n < calls' \<and> client n = Some resp \<and>
        extract_scores w maxd resp = Some s))"
proof (induction w maxd client max_retries retry_count calls rule: evaluate_single_loop.induct)
  case (1 w maxd client max_retries retry_count calls)
  show ?case
  proof (cases "retry_count < max_retries")
    case False
    with "1.prems" show ?thesis by (simp add: loop_done)
  next
    case lt: True
    show ?thesis
    proof (cases "usable w maxd client calls")
      case True
      with lt "1.prems" have "r = extract_scores w maxd (the (client calls))" "calls' = calls + 1"
        by (simp_all add: loop_usable)
      with True lt show ?thesis
        by (auto simp: usable_def split: option.splits intro!: exI [of _ calls])
    next
      case False
      with lt "1.prems"
      have eq: "evaluate_single_loop w maxd client max_retries (retry_count + 1) (calls + 1) = (r, calls')"
        by (simp add: loop_not_usable)
      have ih: "calls + 1 \<le> calls' \<and> calls' \<le> calls + 1 + (max_retries - (retry_count + 1)) \<and>
           (\<forall>s. r = Some s \<longrightarrow> (\<exists>n resp. calls + 1 \<le> n \<and> n < calls' \<and> client n = Some resp \<and>
              extract_scores w maxd resp = Some s))"
      proof (cases "client calls")
        case None
        from "1.IH"(1) [OF lt None eq] show ?thesis by blast
      next
        case (Some response)
        show ?thesis
        proof (cases "response = []")
          case True
          from "1.IH"(2) [OF lt Some True eq] show ?thesis by blast
        next
          case ne: False
          with False Some have "extract_scores w maxd response = None"
            by (simp add: usable_def)
          from "1.IH"(3) [OF lt Some ne this eq] show ?thesis by blast
        qed
      qed
      then have a: "calls \<le> calls'" "calls < calls'"
        "calls' \<le> calls + (max_retries - retry_count)" using lt by arith+
      have "\<forall>s. r = Some s \<longrightarrow> (\<exists>n resp. calls \<le> n \<and> n < calls' \<and> client n = Some resp \<and>
              extract_scores w maxd resp = Some s)"
      proof (intro allI impI)
        fix s assume "r = Some s"
        with ih obtain n resp where "calls + 1 \<le> n" "n < calls'" "client n = Some resp"
          "extract_scores w maxd resp = Some s" by blast
        moreover from this have "calls \<le> n" by simp
        ultimately show "\<exists>n resp. calls \<le> n \<and> n < calls' \<and> client n = Some resp \<and>
              extract_scores w maxd resp = Some s" by blast
      qed
      with a show ?thesis by blast
    qed
  qed
qed

section \<open>Multiple evaluation and its aggregate\<close>

lemma evaluate_single_3:
  "evaluate_single w maxd client 3 calls = (r, calls') \<Longrightarrow>
   calls < calls' \<and> calls' \<le> calls + 3 \<and>
   (\<forall>s. r = Some s \<longrightarrow> (\<exists>n resp. calls \<le> n \<and> n < calls' \<and> client n = Some resp \<and>
        extract_scores w maxd resp = Some s))"
  unfolding evaluate_single_def by (drule loop_result) simp

lemma evaluate_loop_result:
  "evaluate_loop w maxd client K (evs, calls, singles) = (evs', calls', singles') \<Longrightarrow>
   singles' = singles + K \<and> calls + K \<le> calls' \<and> calls' \<le> calls + 3 * K \<and>
   length evs' \<le> length evs + K \<and>
   (\<forall>s \<in> set evs'. s \<in> set evs \<or> (\<exists>n resp. calls \<le> n \<and> n < calls' \<and> client n = Some resp \<and>
        extract_scores w maxd resp = Some s))"
proof (induction K arbitrary: evs calls singles)
  case 0
  then show ?case by simp
next
  case (Suc K)
  obtain r c1 where es: "evaluate_single w maxd client 3 calls = (r, c1)"
    by (cases "evaluate_single w maxd client 3 calls")
  note b = evaluate_single_3 [OF es]
  show ?case
  proof (cases r)
    case None
    with es Suc.prems
    have "evaluate_loop w maxd client K (evs, c1, singles + 1) = (evs', calls', singles')"
      by simp
    from Suc.IH [OF this] b show ?thesis
      by (auto dest: bspec)
  next
    case (Some s0)
    with es Suc.prems
    have "evaluate_loop w maxd client K (evs @ [s0], c1, singles + 1) = (evs', calls', singles')"
      by simp
    note ih = Suc.IH [OF this]
    from b Some obtain n0 r0 where n0: "calls \<le> n0" "n0 < c1" "client n0 = Some r0"
      "extract_scores w maxd r0 = Some s0" by blast
    have "\<forall>s \<in> set evs'. s \<in> set evs \<or> (\<exists>n resp. calls \<le> n \<and> n < calls' \<and> client n = Some resp \<and>
        extract_scores w maxd resp = Some s)"
    proof
      fix s assume "s \<in> set evs'"
      with ih have "s \<in> set (evs @ [s0]) \<or> (\<exists>n resp. c1 \<le> n \<and> n < calls' \<and> client n = Some resp \<and>
        extract_scores w maxd resp = Some s)" by blast
      then consider "s \<in> set evs" | "s = s0" | "\<exists>n resp. c1 \<le> n \<and> n < calls' \<and> client n = Some resp \<and>
        extract_scores w maxd resp = Some s" by auto
      then show "s \<in> set evs \<or> (\<exists>n resp. calls \<le> n \<and> n < calls' \<and> client n = Some resp \<and>
        extract_scores w maxd resp = Some s)"
      proof cases
        case 1 then show ?thesis by simp
      next
        case 2
        from ih have "c1 \<le> calls'" by simp
        with n0 2 have "calls \<le> n0 \<and> n0 < calls' \<and> client n0 = Some r0 \<and> extract_scores w maxd r0 = Some s"
          by simp
        then show ?thesis by blast
      next
        case 3
        then obtain n resp where "c1 \<le> n" "n < calls'" "client n = Some resp"
          "extract_scores w maxd resp = Some s" by blast
        moreover from this b have "calls \<le> n" by simp
        ultimately show ?thesis by blast
      qed
    qed
    moreover from ih b have "singles' = singles + Suc K" "calls + Suc K \<le> calls'"
      "calls' \<le> calls + 3 * Suc K" "length evs' \<le> length evs + Suc K" by simp_all
    ultimately show ?thesis by blast
  qed
qed

lemma metric_stats_spec: "xs \<noteq> [] \<Longrightarrow> metric_stats xs = Inr (spec_stats xs)"
  by (auto simp: metric_stats_def spec_stats_def py_mean_def py_stdev_def arithmetic_mean_def
      sample_std_def Let_def)

lemma aggregate_spec:
  "aggregate evs now =
     (if evs = [] then Inr (EvalError failed_message now)
      else Inr (EvalScores (spec_stats (map total_score evs)) (spec_stats (map capability_score evs))
             (spec_stats (map experience_score evs)) (spec_stats (map potential_score evs)) now))"
  by (simp add: aggregate_def metric_stats_spec)

lemma evaluate_loop_3:
  "evaluate_loop w maxd client 3 st = evaluate_loop w maxd client (Suc (Suc (Suc 0))) st"
  by (simp only: numeral_3_eq_3)

lemma usable_replies_retry:
  "\<not> usable word_basic 4300 replies_retry 0"
  "0 < n \<Longrightarrow> usable word_basic 4300 replies_retry n"
  "the (replies_retry (Suc n)) = resp_valid"
proof -
  have "extract_scores word_basic 4300 resp_out_of_bounds = None"
    by (rule extract_scores_out_of_bounds [OF resp_out_of_bounds_hyp])
  then show "\<not> usable word_basic 4300 replies_retry 0"
    by (simp add: usable_def replies_retry_def)
  have "resp_valid \<noteq> []" by (simp add: resp_valid_def)
  then show "0 < n \<Longrightarrow> usable word_basic 4300 replies_retry n"
    by (simp add: usable_def replies_retry_def resp_valid_sample)
  show "the (replies_retry (Suc n)) = resp_valid"
    by (simp add: replies_retry_def)
qed

lemma evaluate_single_replies_retry:
  "evaluate_single word_basic 4300 replies_retry 3 0 =
     (Some \<lparr>capability_score = 35, experience_score = 30, potential_score = 18, total_score = 83\<rparr>, 2)"
  "0 < n \<Longrightarrow> evaluate_single word_basic 4300 replies_retry 3 n =
     (Some \<lparr>capability_score = 35, experience_score = 30, potential_score = 18, total_score = 83\<rparr>, n + 1)"
proof -
  have "evaluate_single_loop word_basic 4300 replies_retry 3 0 0 =
      (extract_scores word_basic 4300 (the (replies_retry (0 + 1))), 0 + 1 + 1)"
    by (rule loop_first_usable) (simp_all add: usable_replies_retry)
  then show "evaluate_single word_basic 4300 replies_retry 3 0 =
     (Some \<lparr>capability_score = 35, experience_score = 30, potential_score = 18, total_score = 83\<rparr>, 2)"
    by (simp add: evaluate_single_def usable_replies_retry resp_valid_sample)
  assume n: "0 < n"
  then have "the (replies_retry n) = resp_valid" by (simp add: replies_retry_def)
  with n show "evaluate_single word_basic 4300 replies_retry 3 n =
     (Some \<lparr>capability_score = 35, experience_score = 30, potential_score = 18, total_score = 83\<rparr>, n + 1)"
    by (simp add: evaluate_single_def loop_usable usable_replies_retry resp_valid_sample)
qed

lemma evaluate_loop_replies_retry:
  "evaluate_loop word_basic 4300 replies_retry 3 ([], 0, 0) =
     ([\<lparr>capability_score = 35, experience_score = 30, potential_score = 18,
        total_score = 83\<rparr>,
       \<lparr>capability_score = 35, experience_score = 30, potential_score = 18,
        total_score = 83\<rparr>,
       \<lparr>capability_score = 35, experience_score = 30, potential_score = 18,
        total_score = 83\<rparr>], 4, 3)"
  by (simp add: evaluate_loop_3 evaluate_single_replies_retry)

lemma evaluate_single_replies_out_of_bounds:
  "evaluate_single word_basic 4300 replies_out_of_bounds 3 n = (None, n + 3)"
proof -
  have "extract_scores word_basic 4300 resp_out_of_bounds = None"
    by (rule extract_scores_out_of_bounds [OF resp_out_of_bounds_hyp])
  then have "\<And>k. \<not> usable word_basic 4300 replies_out_of_bounds k"
    by (simp add: usable_def replies_out_of_bounds_def)
  then have "evaluate_single_loop word_basic 4300 replies_out_of_bounds 3 0 n = (None, n + (3 - 0))"
    by (intro loop_all_fail) simp
  then show ?thesis by (simp add: evaluate_single_def)
qed

lemma evaluate_loop_replies_out_of_bounds:
  "evaluate_loop word_basic 4300 replies_out_of_bounds 3 ([], 0, 0) = ([], 9, 3)"
  by (simp add: evaluate_loop_3 evaluate_single_replies_out_of_bounds)

text \<open>
  Claim C6.  \<open>evaluate_multiple\<close> calls \<open>evaluate_single\<close> once for each of the \<open>K\<close>
  evaluations asked for, which costs between \<open>K\<close> and \<open>3 K\<close> calls of the service, and
  keeps the samples these calls return, each of them extracted from a reply of the service.
  When no sample is kept the result is the error result with its time stamp, which is no
  scored result; otherwise the result gives, for the total and for each of the three
  metrics, the scores of the samples kept, their arithmetic mean and their sample standard
  deviation, which is 0 when there are fewer than two samples.  No exception is raised.
\<close>

theorem evaluate_multiple_aggregates:
  "evaluate_loop w maxd client K ([], 0, 0) = (valid, calls, singles) \<Longrightarrow>
   singles = K \<and> K \<le> calls \<and> calls \<le> 3 * K \<and> length valid \<le> K \<and>
   (\<forall>s \<in> set valid. \<exists>n resp. n < calls \<and> client n = Some resp \<and>
      extract_scores w maxd resp = Some s) \<and>
   evaluate_multiple w maxd client now K =
     (if valid = [] then Inr (EvalError failed_message now)
      else Inr (EvalScores (spec_stats (map total_score valid))
                 (spec_stats (map capability_score valid))
                 (spec_stats (map experience_score valid))
                 (spec_stats (map potential_score valid)) now),
      calls, singles) \<and>
   (\<forall>t c e p ts. EvalError failed_message now \<noteq> EvalScores t c e p ts) \<and>
   sample_std [x] = 0"
proof -
  assume loop: "evaluate_loop w maxd client K ([], 0, 0) = (valid, calls, singles)"
  from evaluate_loop_result [OF loop]
  have "singles = K" "K \<le> calls" "calls \<le> 3 * K" "length valid \<le> K"
    and "\<forall>s \<in> set valid. \<exists>n resp. n < calls \<and> client n = Some resp \<and>
      extract_scores w maxd resp = Some s"
    by auto
  moreover from loop have "evaluate_multiple w maxd client now K =
     (if valid = [] then Inr (EvalError failed_message now)
      else Inr (EvalScores (spec_stats (map total_score valid))
                 (spec_stats (map capability_score valid))
                 (spec_stats (map experience_score valid))
                 (spec_stats (map potential_score valid)) now),
      calls, singles)"
    by (simp add: evaluate_multiple_def aggregate_spec)
  moreover have "sample_std [x] = 0" by (simp add: sample_std_def)
  ultimately show ?thesis by simp
qed

theorem evaluate_multiple_aggregates_witness:
  "evaluate_loop word_basic 4300 replies_retry 3 ([], 0, 0) =
     ([\<lparr>capability_score = 35, experience_score = 30, potential_score = 18,
        total_score = 83\<rparr>,
       \<lparr>capability_score = 35, experience_score = 30, potential_score = 18,
        total_score = 83\<rparr>,
       \<lparr>capability_score = 35, experience_score = 30, potential_score = 18,
        total_score = 83\<rparr>], 4, 3) \<and>
   evaluate_multiple word_basic 4300 replies_retry [] 3 =
     (Inr (EvalScores (spec_stats [83, 83, 83]) (spec_stats [35, 35, 35])
            (spec_stats [30, 30, 30]) (spec_stats [18, 18, 18]) []), 4, 3) \<and>
   evaluate_loop word_basic 4300 replies_out_of_bounds 3 ([], 0, 0) = ([], 9, 3) \<and>
   evaluate_multiple word_basic 4300 replies_out_of_bounds [] 3 =
     (Inr (EvalError failed_message []), 9, 3)"
proof -
  note a = evaluate_multiple_aggregates [OF evaluate_loop_replies_retry, of "[]" 0]
  note b = evaluate_multiple_aggregates [OF evaluate_loop_replies_out_of_bounds, of "[]" 0]
  from a have "evaluate_multiple word_basic 4300 replies_retry [] 3 =
     (Inr (EvalScores (spec_stats [83, 83, 83]) (spec_stats [35, 35, 35])
            (spec_stats [30, 30, 30]) (spec_stats [18, 18, 18]) []), 4, 3)"
    by simp
  moreover from b have "evaluate_multiple word_basic 4300 replies_out_of_bounds [] 3 =
     (Inr (EvalError failed_message []), 9, 3)"
    by simp
  ultimately show ?thesis
    using evaluate_loop_replies_retry evaluate_loop_replies_out_of_bounds by blast
qed

section \<open>A reply with a score out of bounds\<close>

lemma evaluate_single_retry_step:
  "0 < max_retries \<Longrightarrow> \<not> usable w maxd client calls \<Longrightarrow>
   evaluate_single w maxd client max_retries calls =
     evaluate_single_loop w maxd client max_retries 1 (calls + 1)"
  by (simp add: evaluate_single_def loop_not_usable)

lemma evaluate_single_second_reply:
  assumes "1 < max_retries" "\<not> usable w maxd client calls" "usable w maxd client (calls + 1)"
  shows "evaluate_single w maxd client max_retries calls =
     (extract_scores w maxd (the (client (calls + 1))), calls + 2)"
proof -
  have "evaluate_single_loop w maxd client max_retries 0 calls =
      (extract_scores w maxd (the (client (calls + 1))), calls + 1 + 1)"
    using assms by (intro loop_first_usable) simp_all
  then show ?thesis by (simp add: evaluate_single_def)
qed

lemma evaluate_single_all_fail:
  "(\<forall>n < max_retries. \<not> usable w maxd client (calls + n)) \<Longrightarrow>
   evaluate_single w maxd client max_retries calls = (None, calls + max_retries)"
  using loop_all_fail [of max_retries 0 w maxd client calls] by (simp add: evaluate_single_def)

text \<open>
  Claim C8, as the code has it.  A reply in which some metric can only be extracted outside
  its bounds yields no sample, and \<open>evaluate_single\<close> treats it like any other reply
  without a sample: when the bound on the attempts allows, it calls the service again, and
  a usable second reply gives the sample that is returned.  Only when none of the
  \<open>max_retries\<close> replies is usable does \<open>evaluate_single\<close> return nothing, after exactly
  \<open>max_retries\<close> calls; \<open>evaluate_multiple\<close> then leaves its list of samples as it is.
\<close>

theorem out_of_bounds_reply_is_retried:
  "client calls = Some r \<Longrightarrow>
   (\<forall>line \<in> set (score_lines r). \<forall>ds n.
      extracted w mt line = Some ds \<and> py_int maxd ds = Some n \<longrightarrow> n < 0 \<or> max_scores mt < n) \<Longrightarrow>
   extract_scores w maxd r = None \<and>
   (1 < max_retries \<longrightarrow>
      evaluate_single w maxd client max_retries calls =
        evaluate_single_loop w maxd client max_retries 1 (calls + 1)) \<and>
   (1 < max_retries \<and> usable w maxd client (calls + 1) \<longrightarrow>
      evaluate_single w maxd client max_retries calls =
        (extract_scores w maxd (the (client (calls + 1))), calls + 2)) \<and>
   ((\<forall>n < max_retries. \<not> usable w maxd client (calls + n)) \<longrightarrow>
      evaluate_single w maxd client max_retries calls = (None, calls + max_retries)) \<and>
   ((\<forall>n < 3. \<not> usable w maxd client (calls + n)) \<longrightarrow>
      evaluate_loop w maxd client (Suc 0) (evs, calls, singles) = (evs, calls + 3, singles + 1))"
proof -
  assume r: "client calls = Some r"
    and oob: "\<forall>line \<in> set (score_lines r). \<forall>ds n.
      extracted w mt line = Some ds \<and> py_int maxd ds = Some n \<longrightarrow> n < 0 \<or> max_scores mt < n"
  have none: "extract_scores w maxd r = None"
    by (rule extract_scores_out_of_bounds [OF oob])
  with r have nu: "\<not> usable w maxd client calls" by (simp add: usable_def)
  have "1 < max_retries \<longrightarrow>
      evaluate_single w maxd client max_retries calls =
        evaluate_single_loop w maxd client max_retries 1 (calls + 1)"
    using nu by (simp add: evaluate_single_retry_step)
  moreover have "1 < max_retries \<and> usable w maxd client (calls + 1) \<longrightarrow>
      evaluate_single w maxd client max_retries calls =
        (extract_scores w maxd (the (client (calls + 1))), calls + 2)"
    using nu by (simp add: evaluate_single_second_reply)
  moreover have "(\<forall>n < max_retries. \<not> usable w maxd client (calls + n)) \<longrightarrow>
      evaluate_single w maxd client max_retries calls = (None, calls + max_retries)"
    by (simp add: evaluate_single_all_fail)
  moreover have "(\<forall>n < 3. \<not> usable w maxd client (calls + n)) \<longrightarrow>
      evaluate_loop w maxd client (Suc 0) (evs, calls, singles) = (evs, calls + 3, singles + 1)"
    by (simp add: evaluate_single_all_fail)
  ultimately show ?thesis using none by blast
qed

theorem out_of_bounds_reply_is_retried_witness:
  "replies_retry 0 = Some resp_out_of_bounds \<and>
   extract_scores word_basic 4300 resp_out_of_bounds = None \<and>
   evaluate_single word_basic 4300 replies_retry 3 0 =
     (extract_scores word_basic 4300 (the (replies_retry (0 + 1))), 0 + 2) \<and>
   evaluate_single word_basic 4300 replies_out_of_bounds 3 0 = (None, 0 + 3) \<and>
   evaluate_loop word_basic 4300 replies_out_of_bounds (Suc 0) ([], 0, 0) = ([], 0 + 3, 0 + 1)"
proof -
  have r0: "replies_retry 0 = Some resp_out_of_bounds" by (simp add: replies_retry_def)
  have r1: "replies_out_of_bounds 0 = Some resp_out_of_bounds"
    by (simp add: replies_out_of_bounds_def)
  note a = out_of_bounds_reply_is_retried [where client = replies_retry and calls = 0
      and max_retries = 3 and evs = "[]" and singles = 0, OF r0 resp_out_of_bounds_hyp]
  note b = out_of_bounds_reply_is_retried [where client = replies_out_of_bounds and calls = 0
      and max_retries = 3 and evs = "[]" and singles = 0, OF r1 resp_out_of_bounds_hyp]
  have u: "(1::nat) < 3 \<and> usable word_basic 4300 replies_retry (0 + 1)"
    by (simp add: usable_replies_retry)
  have "extract_scores word_basic 4300 resp_out_of_bounds = None"
    by (rule extract_scores_out_of_bounds [OF resp_out_of_bounds_hyp])
  then have f: "\<forall>n < 3. \<not> usable word_basic 4300 replies_out_of_bounds (0 + n)"
    by (simp add: usable_def replies_out_of_bounds_def)
  from a u b f r0 show ?thesis by blast
qed

text \<open>
  The first reply gives 50 for the capability, above its maximum of 40, and yields no
  sample; \<open>evaluate_single\<close> then calls the service a second time and returns the sample
  of the second reply.
\<close>

theorem out_of_bounds_reply_second_call:
  "replies_retry 0 = Some resp_out_of_bounds \<and>
   extracted word_basic Capability (hd (score_lines resp_out_of_bounds)) = Some (lit ''50'') \<and>
   extract_scores word_basic 4300 resp_out_of_bounds = None \<and>
   evaluate_single word_basic 4300 replies_retry 3 0 =
     (Some \<lparr>capability_score = 35, experience_score = 30, potential_score = 18,
        total_score = 83\<rparr>, 2)"
proof -
  have "replies_retry 0 = Some resp_out_of_bounds" by (simp add: replies_retry_def)
  moreover have "extracted word_basic Capability (hd (score_lines resp_out_of_bounds)) = Some (lit ''50'')"
    by (simp only: resp_out_of_bounds_lines list.sel resp_out_of_bounds_capability)
  moreover have "extract_scores word_basic 4300 resp_out_of_bounds = None"
    by (rule extract_scores_out_of_bounds [OF resp_out_of_bounds_hyp])
  ultimately show ?thesis using evaluate_single_replies_retry(1) by blast
qed

section \<open>Validation and the generation session\<close>

lemma validate_is_valid:
  "is_valid (validate_resume c p rt) \<longleftrightarrow> set (used_tokens c) = set (allowed_tokens rt)"
  by (auto simp: validate_resume_def Let_def filter_empty_conv)

lemma generate_loop_valid:
  "attempt < max_attempts \<Longrightarrow> chat calls h = Some c \<Longrightarrow> is_valid (validate_resume c p rt) \<Longrightarrow>
   generate_loop chat now p l rt max_attempts attempt calls h =
     (Inr (c, \<lparr>md_timestamp = now, md_position = p, md_skill_level = l,
                md_recruitment_type = rt, md_validation_result = validate_resume c p rt\<rparr>),
      calls + 1, h @ [AssistantReply c])"
  by (subst generate_loop.simps) simp

lemma generate_loop_invalid:
  "attempt < max_attempts \<Longrightarrow> chat calls h = Some c \<Longrightarrow> \<not> is_valid (validate_resume c p rt) \<Longrightarrow>
   generate_loop chat now p l rt max_attempts attempt calls h =
     generate_loop chat now p l rt max_attempts (attempt + 1) (calls + 1)
       (h @ [AssistantReply c, UserCorrection (issues (validate_resume c p rt))])"
  by (subst generate_loop.simps) simp

lemma generate_loop_exception:
  "attempt < max_attempts \<Longrightarrow> chat calls h = None \<Longrightarrow>
   generate_loop chat now p l rt max_attempts attempt calls h =
     generate_loop chat now p l rt max_attempts (attempt + 1) (calls + 1) h"
  by (subst generate_loop.simps) simp

lemma generate_loop_exhausted:
  "\<not> attempt < max_attempts \<Longrightarrow>
   generate_loop chat now p l rt max_attempts attempt calls h = (Inl ValueError, calls, h)"
  by (subst generate_loop.simps) simp

lemma generate_loop_all_fail:
  "(\<forall>n h. reply_fails chat p rt n h) \<Longrightarrow>
   \<exists>h'. generate_loop chat now p l rt max_attempts attempt calls h =
     (Inl ValueError, calls + (max_attempts - attempt), h')"
proof (induction "max_attempts - attempt" arbitrary: attempt calls h)
  case 0
  then show ?case by (simp add: generate_loop_exhausted)
next
  case (Suc d)
  from Suc.hyps(2) have lt: "attempt < max_attempts" and d: "d = max_attempts - (attempt + 1)"
    by arith+
  from Suc.hyps(1) [OF d Suc.prems]
  have ih: "\<And>calls h. \<exists>h'. generate_loop chat now p l rt max_attempts (attempt + 1) calls h =
     (Inl ValueError, calls + (max_attempts - (attempt + 1)), h')" by blast
  have eq: "calls + 1 + (max_attempts - (attempt + 1)) = calls + (max_attempts - attempt)"
    using lt by arith
  show ?case
  proof (cases "chat calls h")
    case None
    with lt ih [of "calls + 1" h] eq show ?thesis
      by (simp add: generate_loop_exception)
  next
    case (Some c)
    with Suc.prems [rule_format, of calls h] have "\<not> is_valid (validate_resume c p rt)"
      by (simp add: reply_fails_def)
    with lt Some ih [of "calls + 1" "h @ [AssistantReply c, UserCorrection (issues (validate_resume c p rt))]"] eq
    show ?thesis by (simp add: generate_loop_invalid)
  qed
qed

lemma generate_loop_calls:
  "generate_loop chat now p l rt max_attempts attempt calls h = (r, calls', h') \<Longrightarrow>
   calls \<le> calls' \<and> calls' \<le> calls + (max_attempts - attempt)"
proof (induction chat now p l rt max_attempts attempt calls h rule: generate_loop.induct)
  case (1 chat now p l rt max_attempts attempt calls h)
  show ?case
  proof (cases "attempt < max_attempts")
    case False
    with "1.prems" show ?thesis by (simp add: generate_loop_exhausted)
  next
    case lt: True
    show ?thesis
    proof (cases "chat calls h")
      case None
      with lt "1.prems" have "generate_loop chat now p l rt max_attempts (attempt + 1) (calls + 1) h = (r, calls', h')"
        by (simp add: generate_loop_exception)
      from "1.IH"(1) [OF lt None this] lt show ?thesis by arith
    next
      case (Some c)
      show ?thesis
      proof (cases "is_valid (validate_resume c p rt)")
        case True
        with lt Some "1.prems" show ?thesis by (auto simp: generate_loop_valid)
      next
        case False
        with lt Some "1.prems" have "generate_loop chat now p l rt max_attempts (attempt + 1) (calls + 1)
          (h @ [AssistantReply c, UserCorrection (issues (validate_resume c p rt))]) = (r, calls', h')"
          by (simp add: generate_loop_invalid)
        from "1.IH"(2) [OF lt Some False this] lt show ?thesis by arith
      qed
    qed
  qed
qed

lemma batch_item_exhausted:
  assumes "\<forall>n h. reply_fails chat p rt n h" "\<not> resume_exists st p rt l"
  shows "batch_item chat prompt now p rt l st =
     st\<lparr>total_errors := total_errors st + 1, chat_calls := chat_calls st + 5\<rparr>"
proof -
  from generate_loop_all_fail [OF assms(1)]
  obtain h' where "generate_resume chat prompt now p l rt (chat_calls st) =
      (Inl ValueError, chat_calls st + 5, h')"
    unfolding generate_resume_def by (metis diff_zero)
  with assms(2) show ?thesis by (simp add: batch_item_def)
qed

lemma batch_item_exhausted_empty:
  "\<forall>p rt n h. reply_fails chat p rt n h \<Longrightarrow> resumes st = [] \<Longrightarrow>
   batch_item chat prompt now p rt l st =
     st\<lparr>total_errors := total_errors st + 1, chat_calls := chat_calls st + 5\<rparr>"
  by (rule batch_item_exhausted) (simp_all add: resume_exists_def)

lemma skill_levels_exhausted:
  assumes "\<forall>p rt n h. reply_fails chat p rt n h" "resumes st = []"
  shows "skill_level_loop chat prompt now p rt ls st =
     st\<lparr>total_errors := total_errors st + length ls, chat_calls := chat_calls st + 5 * length ls\<rparr>"
  using assms(2)
proof (induction ls arbitrary: st)
  case Nil
  then show ?case by simp
next
  case (Cons l ls)
  have "resumes (st\<lparr>total_errors := total_errors st + 1, chat_calls := chat_calls st + 5\<rparr>) = []"
    using Cons.prems by simp
  from Cons.IH [OF this] show ?case
    by (simp add: batch_item_exhausted_empty [OF assms(1) Cons.prems])
qed

lemma recruitment_types_exhausted:
  assumes "\<forall>p rt n h. reply_fails chat p rt n h" "resumes st = []"
    "\<forall>rt \<in> set rts. \<exists>ls. get_applicable_skill_levels rt = Inr ls"
  shows "recruitment_type_loop chat prompt now p rts st =
     (None, st\<lparr>total_errors := total_errors st + level_count rts,
                chat_calls := chat_calls st + 5 * level_count rts\<rparr>)"
  using assms(2,3)
proof (induction rts arbitrary: st)
  case Nil
  then show ?case by (simp add: level_count_def)
next
  case (Cons rt rts)
  from Cons.prems(2) obtain ls where ls: "get_applicable_skill_levels rt = Inr ls" by auto
  let ?st = "st\<lparr>total_errors := total_errors st + length ls,
                 chat_calls := chat_calls st + 5 * length ls\<rparr>"
  have s: "skill_level_loop chat prompt now p rt ls st = ?st"
    by (rule skill_levels_exhausted [OF assms(1) Cons.prems(1)])
  have "resumes ?st = []" using Cons.prems(1) by simp
  moreover from Cons.prems(2) have "\<forall>rt \<in> set rts. \<exists>ls. get_applicable_skill_levels rt = Inr ls"
    by simp
  ultimately have "recruitment_type_loop chat prompt now p rts ?st =
     (None, ?st\<lparr>total_errors := total_errors ?st + level_count rts,
                chat_calls := chat_calls ?st + 5 * level_count rts\<rparr>)"
    by (rule Cons.IH)
  moreover have "level_count (rt # rts) = length ls + level_count rts"
    by (simp add: level_count_def ls)
  ultimately show ?case by (simp add: ls s algebra_simps)
qed

lemma applicable_levels_defined:
  "rt \<in> set (get_applicable_recruitment_types p) \<Longrightarrow> \<exists>ls. get_applicable_skill_levels rt = Inr ls"
  by (auto simp: get_applicable_recruitment_types_def get_applicable_skill_levels_def
      split: if_splits)

lemma positions_exhausted:
  assumes "\<forall>p rt n h. reply_fails chat p rt n h" "resumes st = []"
  shows "position_loop chat prompt now ps st =
     (None, st\<lparr>total_errors := total_errors st + item_count ps,
                chat_calls := chat_calls st + 5 * item_count ps\<rparr>)"
  using assms(2)
proof (induction ps arbitrary: st)
  case Nil
  then show ?case by (simp add: item_count_def)
next
  case (Cons p ps)
  let ?n = "level_count (get_applicable_recruitment_types p)"
  let ?st = "st\<lparr>total_errors := total_errors st + ?n, chat_calls := chat_calls st + 5 * ?n\<rparr>"
  have r: "recruitment_type_loop chat prompt now p (get_applicable_recruitment_types p) st = (None, ?st)"
    by (rule recruitment_types_exhausted [OF assms(1) Cons.prems])
       (simp add: applicable_levels_defined)
  have "resumes ?st = []" using Cons.prems by simp
  then have "position_loop chat prompt now ps ?st =
     (None, ?st\<lparr>total_errors := total_errors ?st + item_count ps,
                chat_calls := chat_calls ?st + 5 * item_count ps\<rparr>)"
    by (rule Cons.IH)
  moreover have "item_count (p # ps) = ?n + item_count ps"
    by (simp add: item_count_def)
  ultimately show ?case by (simp add: r algebra_simps)
qed

lemma item_count_all: "item_count all_positions = 59"
  by (simp add: item_count_def level_count_def all_positions_def
      get_applicable_recruitment_types_def get_applicable_skill_levels_def)

lemma batch_all_exhausted:
  assumes "\<forall>p rt n h. reply_fails chat p rt n h" "resumes st = []"
  shows "batch_generate_resumes chat prompt now st =
     (None, st\<lparr>total_generated := 0, total_errors := 59, chat_calls := chat_calls st + 295\<rparr>)"
proof -
  have "resumes (st\<lparr>total_generated := 0, total_errors := 0\<rparr>) = []" using assms(2) by simp
  from positions_exhausted [OF assms(1) this, of prompt now all_positions]
  show ?thesis by (simp add: batch_generate_resumes_def item_count_all)
qed

section \<open>Claim C1: what makes a resume valid\<close>

lemma allowed_tokens_campus:
  "allowed_tokens CAMPUS_TECH =
     [lit ''{NAME}'', lit ''{AGE}'', lit ''{GENDER}'', lit ''{MARRIAGE}'', lit ''{HUKOU}'',
      lit ''{DISABILITY}'', lit ''{POLITICAL}'']"
  by (simp add: allowed_tokens_def bias_tokens_def is_campus_recruitment_def career_category_def
      lit_def)

lemma used_tokens_markers_only:
  "used_tokens resume_markers_only =
     [lit ''{NAME}'', lit ''{AGE}'', lit ''{GENDER}'', lit ''{MARRIAGE}'', lit ''{HUKOU}'',
      lit ''{DISABILITY}'', lit ''{POLITICAL}'']"
  by (simp add: used_tokens_def re_findall_def token_pattern_def resume_markers_only_def
      startswith_def lit_def Let_def)

lemma no_quantity_markers_only: "\<not> has_quantitative resume_markers_only"
  by (simp add: has_quantitative_def quantitative_patterns_def re_search_def
      resume_markers_only_def startswith_def lit_def isdecimal_below_0x660 isspace_def)

lemma missing_sections_markers_only:
  "missing_sections resume_markers_only BACKEND CAMPUS_TECH =
     [[0x4E13, 0x4E1A, 0x6280, 0x80FD], [0x9879, 0x76EE, 0x7ECF, 0x9A8C]]"
  by (simp add: missing_sections_def position_requirements_def section_variants_def
      is_campus_recruitment_def work_experience_section_def resume_markers_only_def
      startswith_def lit_def)

lemma validate_markers_only:
  "validate_resume resume_markers_only BACKEND CAMPUS_TECH =
     \<lparr>is_valid = True,
      issues = [AddSection [0x4E13, 0x4E1A, 0x6280, 0x80FD],
                AddSection [0x9879, 0x76EE, 0x7ECF, 0x9A8C], AddQuantitative]\<rparr>"
  by (simp add: validate_resume_def Let_def allowed_tokens_campus used_tokens_markers_only
      no_quantity_markers_only missing_sections_markers_only)

lemma validate_issues_when_valid:
  "is_valid (validate_resume c p rt) \<Longrightarrow>
   issues (validate_resume c p rt) =
     map AddSection (missing_sections c p rt) @
     (if has_quantitative c then [] else [AddQuantitative])"
  by (simp add: validate_resume_def Let_def)

text \<open>
  Claim C1, as the code has it.  A resume is valid exactly when the markers found in it are
  the required markers of the recruitment type, none missing and none besides.  The
  sections and the quantified results are checked too, but what is found missing there is
  only reported among the issues: the issues of a valid resume are these suggestions and
  nothing else.  In the session, a reply with a valid resume ends the session with
  success; a reply with a resume that is not valid is followed by a correction turn that
  carries the issues, and by the next attempt.
\<close>

theorem validity_is_the_marker_check:
  "(is_valid (validate_resume c p rt) \<longleftrightarrow> set (used_tokens c) = set (allowed_tokens rt)) \<and>
   (is_valid (validate_resume c p rt) \<longrightarrow>
      issues (validate_resume c p rt) =
        map AddSection (missing_sections c p rt) @
        (if has_quantitative c then [] else [AddQuantitative])) \<and>
   (attempt < max_attempts \<and> chat calls h = Some c \<longrightarrow>
      generate_loop chat now p l rt max_attempts attempt calls h =
        (if set (used_tokens c) = set (allowed_tokens rt)
         then (Inr (c, \<lparr>md_timestamp = now, md_position = p, md_skill_level = l,
                         md_recruitment_type = rt,
                         md_validation_result = validate_resume c p rt\<rparr>),
               calls + 1, h @ [AssistantReply c])
         else generate_loop chat now p l rt max_attempts (attempt + 1) (calls + 1)
                (h @ [AssistantReply c, UserCorrection (issues (validate_resume c p rt))])))"
proof (intro conjI impI)
  show "is_valid (validate_resume c p rt) \<longleftrightarrow> set (used_tokens c) = set (allowed_tokens rt)"
    by (rule validate_is_valid)
next
  assume "is_valid (validate_resume c p rt)"
  then show "issues (validate_resume c p rt) =
        map AddSection (missing_sections c p rt) @
        (if has_quantitative c then [] else [AddQuantitative])"
    by (rule validate_issues_when_valid)
next
  assume a: "attempt < max_attempts \<and> chat calls h = Some c"
  show "generate_loop chat now p l rt max_attempts attempt calls h =
        (if set (used_tokens c) = set (allowed_tokens rt)
         then (Inr (c, \<lparr>md_timestamp = now, md_position = p, md_skill_level = l,
                         md_recruitment_type = rt,
                         md_validation_result = validate_resume c p rt\<rparr>),
               calls + 1, h @ [AssistantReply c])
         else generate_loop chat now p l rt max_attempts (attempt + 1) (calls + 1)
                (h @ [AssistantReply c, UserCorrection (issues (validate_resume c p rt))]))"
  proof (cases "is_valid (validate_resume c p rt)")
    case True
    then have "set (used_tokens c) = set (allowed_tokens rt)" by (simp add: validate_is_valid)
    with a True show ?thesis by (simp add: generate_loop_valid)
  next
    case False
    then have "set (used_tokens c) \<noteq> set (allowed_tokens rt)" by (simp add: validate_is_valid)
    with a False show ?thesis by (simp add: generate_loop_invalid)
  qed
qed

theorem validity_is_the_marker_check_witness:
  "set (used_tokens resume_markers_only) = set (allowed_tokens CAMPUS_TECH) \<and>
   is_valid (validate_resume resume_markers_only BACKEND CAMPUS_TECH) \<and>
   issues (validate_resume resume_markers_only BACKEND CAMPUS_TECH) =
     map AddSection (missing_sections resume_markers_only BACKEND CAMPUS_TECH) @
     (if has_quantitative resume_markers_only then [] else [AddQuantitative]) \<and>
   generate_loop chat_markers_only [] BACKEND VERY_LOW CAMPUS_TECH 5 0 0 [] =
     (Inr (resume_markers_only,
           \<lparr>md_timestamp = [], md_position = BACKEND, md_skill_level = VERY_LOW,
            md_recruitment_type = CAMPUS_TECH,
            md_validation_result = validate_resume resume_markers_only BACKEND CAMPUS_TECH\<rparr>),
      0 + 1, [] @ [AssistantReply resume_markers_only])"
proof -
  note t = validity_is_the_marker_check [of resume_markers_only BACKEND CAMPUS_TECH 0 5
      chat_markers_only 0 "[]" "[]" VERY_LOW]
  have e: "set (used_tokens resume_markers_only) = set (allowed_tokens CAMPUS_TECH)"
    by (simp only: used_tokens_markers_only allowed_tokens_campus)
  have a: "(0::nat) < 5 \<and> chat_markers_only 0 [] = Some resume_markers_only"
    by (simp add: chat_markers_only_def)
  from t e a show ?thesis by presburger
qed

text \<open>
  A resume with the seven markers of a campus recruitment and nothing else has none of the
  required sections and no quantified result, and yet it is valid, and the session ends
  with success at the first attempt.
\<close>

theorem valid_without_sections_and_quantities:
  "missing_sections resume_markers_only BACKEND CAMPUS_TECH =
     [[0x4E13, 0x4E1A, 0x6280, 0x80FD], [0x9879, 0x76EE, 0x7ECF, 0x9A8C]] \<and>
   \<not> has_quantitative resume_markers_only \<and>
   is_valid (validate_resume resume_markers_only BACKEND CAMPUS_TECH) \<and>
   generate_resume chat_markers_only no_prompt [] BACKEND VERY_LOW CAMPUS_TECH 0 =
     (Inr (resume_markers_only,
           \<lparr>md_timestamp = [], md_position = BACKEND, md_skill_level = VERY_LOW,
            md_recruitment_type = CAMPUS_TECH,
            md_validation_result =
              \<lparr>is_valid = True,
               issues = [AddSection [0x4E13, 0x4E1A, 0x6280, 0x80FD],
                         AddSection [0x9879, 0x76EE, 0x7ECF, 0x9A8C], AddQuantitative]\<rparr>\<rparr>),
      1, [SystemTurn, UserPrompt [], AssistantReply resume_markers_only])"
proof -
  have v: "is_valid (validate_resume resume_markers_only BACKEND CAMPUS_TECH)"
    by (simp add: validate_markers_only)
  have "generate_loop chat_markers_only [] BACKEND VERY_LOW CAMPUS_TECH 5 0 0
          [SystemTurn, UserPrompt []] =
     (Inr (resume_markers_only,
           \<lparr>md_timestamp = [], md_position = BACKEND, md_skill_level = VERY_LOW,
            md_recruitment_type = CAMPUS_TECH,
            md_validation_result = validate_resume resume_markers_only BACKEND CAMPUS_TECH\<rparr>),
      0 + 1, [SystemTurn, UserPrompt []] @ [AssistantReply resume_markers_only])"
    by (rule generate_loop_valid) (simp_all add: chat_markers_only_def v)
  then have "generate_resume chat_markers_only no_prompt [] BACKEND VERY_LOW CAMPUS_TECH 0 =
     (Inr (resume_markers_only,
           \<lparr>md_timestamp = [], md_position = BACKEND, md_skill_level = VERY_LOW,
            md_recruitment_type = CAMPUS_TECH,
            md_validation_result =
              \<lparr>is_valid = True,
               issues = [AddSection [0x4E13, 0x4E1A, 0x6280, 0x80FD],
                         AddSection [0x9879, 0x76EE, 0x7ECF, 0x9A8C], AddQuantitative]\<rparr>\<rparr>),
      1, [SystemTurn, UserPrompt [], AssistantReply resume_markers_only])"
    by (simp add: generate_resume_def no_prompt_def validate_markers_only)
  with v missing_sections_markers_only no_quantity_markers_only show ?thesis by blast
qed

section \<open>Claim C5: the bound on the attempts\<close>

lemma used_tokens_no_markers: "used_tokens (lit ''resume'') = []"
  by (simp add: used_tokens_def re_findall_def token_pattern_def startswith_def lit_def)

lemma allowed_tokens_name: "lit ''{NAME}'' \<in> set (allowed_tokens rt)"
  by (simp add: allowed_tokens_def bias_tokens_def career_category_def lit_def)

lemma chat_failing_fails: "reply_fails chat_failing p rt n h"
proof -
  have "set (used_tokens (lit ''resume'')) \<noteq> set (allowed_tokens rt)"
    using allowed_tokens_name [of rt] by (simp only: used_tokens_no_markers) auto
  then show ?thesis
    by (simp add: reply_fails_def chat_failing_def validate_is_valid)
qed

lemma generate_resume_exhausted:
  assumes "\<forall>n h. reply_fails chat p rt n h"
  shows "fst (generate_resume chat prompt now p l rt calls) = Inl ValueError"
    and "fst (snd (generate_resume chat prompt now p l rt calls)) = calls + 5"
proof -
  from generate_loop_all_fail [OF assms]
  obtain h' where "generate_resume chat prompt now p l rt calls = (Inl ValueError, calls + 5, h')"
    unfolding generate_resume_def by (metis diff_zero)
  then show "fst (generate_resume chat prompt now p l rt calls) = Inl ValueError"
    and "fst (snd (generate_resume chat prompt now p l rt calls)) = calls + 5"
    by simp_all
qed

lemma generate_resume_calls:
  "fst (snd (generate_resume chat prompt now p l rt calls)) \<le> calls + 5"
proof -
  obtain r calls' h' where "generate_resume chat prompt now p l rt calls = (r, calls', h')"
    by (cases "generate_resume chat prompt now p l rt calls")
  moreover from this have "calls' \<le> calls + (5 - 0)"
    unfolding generate_resume_def by (blast dest: generate_loop_calls)
  ultimately show ?thesis by simp
qed

text \<open>
  Claim C5.  The loop of \<open>generate_resume\<close> is a total function; it never makes more
  than 5 calls of the service.  When every reply fails, because the call raises an
  exception or because the resume is not valid, it makes exactly 5 calls (in general, as
  many as the bound on the attempts) and ends with the \<open>ValueError\<close> that reports the
  exhausted session.  In the batch this exception counts one error for the item and the
  loop goes on: when every reply fails and no resume exists yet, the batch ends without an
  exception of its own, with one error for each of its 59 items and 295 calls.
\<close>

theorem generation_stops_at_max_attempts:
  "((\<forall>n h. reply_fails chat p rt n h) \<longrightarrow>
      (\<exists>h'. generate_loop chat now p l rt max_attempts 0 calls h =
         (Inl ValueError, calls + max_attempts, h')) \<and>
      fst (generate_resume chat prompt now p l rt calls) = Inl ValueError \<and>
      fst (snd (generate_resume chat prompt now p l rt calls)) = calls + 5) \<and>
   fst (snd (generate_resume chat prompt now p l rt calls)) \<le> calls + 5 \<and>
   ((\<forall>n h. reply_fails chat p rt n h) \<and> \<not> resume_exists st p rt l \<longrightarrow>
      batch_item chat prompt now p rt l st =
        st\<lparr>total_errors := total_errors st + 1, chat_calls := chat_calls st + 5\<rparr>) \<and>
   ((\<forall>p rt n h. reply_fails chat p rt n h) \<and> resumes st = [] \<longrightarrow>
      batch_generate_resumes chat prompt now st =
        (None, st\<lparr>total_generated := 0, total_errors := 59,
                   chat_calls := chat_calls st + 295\<rparr>))"
proof (intro conjI impI)
  assume f: "\<forall>n h. reply_fails chat p rt n h"
  from generate_loop_all_fail [OF f, of now l max_attempts 0 calls h]
  show "\<exists>h'. generate_loop chat now p l rt max_attempts 0 calls h =
         (Inl ValueError, calls + max_attempts, h')" by simp
  from f show "fst (generate_resume chat prompt now p l rt calls) = Inl ValueError"
    by (rule generate_resume_exhausted)
  from f show "fst (snd (generate_resume chat prompt now p l rt calls)) = calls + 5"
    by (rule generate_resume_exhausted)
next
  show "fst (snd (generate_resume chat prompt now p l rt calls)) \<le> calls + 5"
    by (rule generate_resume_calls)
next
  assume "(\<forall>n h. reply_fails chat p rt n h) \<and> \<not> resume_exists st p rt l"
  then show "batch_item chat prompt now p rt l st =
        st\<lparr>total_errors := total_errors st + 1, chat_calls := chat_calls st + 5\<rparr>"
    by (simp add: batch_item_exhausted)
next
  assume "(\<forall>p rt n h. reply_fails chat p rt n h) \<and> resumes st = []"
  then show "batch_generate_resumes chat prompt now st =
        (None, st\<lparr>total_generated := 0, total_errors := 59,
                   chat_calls := chat_calls st + 295\<rparr>)"
    by (simp add: batch_all_exhausted)
qed

theorem generation_stops_at_max_attempts_witness:
  "reply_fails chat_failing BACKEND CAMPUS_TECH 0 [] \<and>
   reply_fails chat_failing BACKEND CAMPUS_TECH 1 [] \<and>
   fst (generate_resume chat_failing no_prompt [] BACKEND VERY_LOW CAMPUS_TECH 0) = Inl ValueError \<and>
   fst (snd (generate_resume chat_failing no_prompt [] BACKEND VERY_LOW CAMPUS_TECH 0)) = 0 + 5 \<and>
   batch_item chat_failing no_prompt [] BACKEND CAMPUS_TECH VERY_LOW empty_batch =
     empty_batch\<lparr>total_errors := total_errors empty_batch + 1,
                 chat_calls := chat_calls empty_batch + 5\<rparr> \<and>
   batch_generate_resumes chat_failing no_prompt [] empty_batch =
     (None, empty_batch\<lparr>total_generated := 0, total_errors := 59,
                        chat_calls := chat_calls empty_batch + 295\<rparr>)"
proof -
  note t = generation_stops_at_max_attempts [of chat_failing BACKEND CAMPUS_TECH "[]" VERY_LOW
      5 0 "[]" no_prompt empty_batch]
  have f: "\<forall>p rt n h. reply_fails chat_failing p rt n h"
    by (simp add: chat_failing_fails)
  have e: "resumes empty_batch = []" "\<not> resume_exists empty_batch BACKEND CAMPUS_TECH VERY_LOW"
    by (simp_all add: empty_batch_def resume_exists_def)
  from t f e show ?thesis by blast
qed

section \<open>The batch processor: loading, collecting, saving\<close>

lemma as_completed_mset: "mset (as_completed choices xs) = mset xs"
proof (induction choices xs rule: as_completed.induct)
  case (3 c choices x xs)
  let ?ys = "x # xs" and ?i = "c mod length (x # xs)"
  have i: "?i < length ?ys" by simp
  have "mset ?ys = mset (take ?i ?ys @ ?ys ! ?i # drop (Suc ?i) ?ys)"
    using id_take_nth_drop [OF i] by simp
  also have "\<dots> = mset (?ys ! ?i # (take ?i ?ys @ drop (Suc ?i) ?ys))" by simp
  finally show ?case using "3.IH" by simp
qed simp_all

lemma collect_not_aborted:
  "aborted (collect outcome now save_events items st) = None \<Longrightarrow>
   processed (collect outcome now save_events items st) =
     processed st @ map (\<lambda>(j, x). completed_record outcome now j x) items"
proof (induction items arbitrary: st)
  case Nil
  then show ?case by simp
next
  case (Cons item items)
  obtain j x where item: "item = (j, x)" by (cases item)
  obtain e fs msgs where sp: "save_progress (save_events (saves st))
      (processed st @ [completed_record outcome now j x]) (disk st) = (e, fs, msgs)"
    by (cases "save_progress (save_events (saves st))
      (processed st @ [completed_record outcome now j x]) (disk st)")
  show ?case
  proof (cases e)
    case None
    with Cons.prems item sp show ?thesis
      by (simp add: Cons.IH)
  next
    case (Some a)
    with Cons.prems item sp show ?thesis by simp
  qed
qed

lemma collect_prefix:
  "take (length (processed st)) (processed (collect outcome now save_events items st)) = processed st"
proof (induction items arbitrary: st)
  case Nil
  then show ?case by simp
next
  case (Cons item items)
  obtain j x where item: "item = (j, x)" by (cases item)
  obtain e fs msgs where sp: "save_progress (save_events (saves st))
      (processed st @ [completed_record outcome now j x]) (disk st) = (e, fs, msgs)"
    by (cases "save_progress (save_events (saves st))
      (processed st @ [completed_record outcome now j x]) (disk st)")
  show ?case
  proof (cases e)
    case None
    let ?st = "st\<lparr>processed := processed st @ [completed_record outcome now j x], disk := fs,
                logged := logged st @ worker_errors outcome j x @ msgs,
                saves := saves st + 1\<rparr>"
    from Cons.IH [of ?st]
    have "take (Suc (length (processed st))) (processed (collect outcome now save_events items ?st))
        = processed st @ [completed_record outcome now j x]" by simp
    then have "take (length (processed st)) (take (Suc (length (processed st)))
         (processed (collect outcome now save_events items ?st))) = processed st" by simp
    then have "take (length (processed st)) (processed (collect outcome now save_events items ?st))
        = processed st" by (simp add: min_def)
    with None item sp show ?thesis by simp
  next
    case (Some a)
    with item sp show ?thesis by simp
  qed
qed

lemma collect_submitted:
  "submitted (collect outcome now save_events items st) = submitted st"
proof (induction items arbitrary: st)
  case Nil
  then show ?case by simp
next
  case (Cons item items)
  obtain j x where item: "item = (j, x)" by (cases item)
  show ?case
    by (cases "save_progress (save_events (saves st))
      (processed st @ [completed_record outcome now j x]) (disk st)")
      (auto simp: item Cons.IH split: option.splits)
qed

lemma collect_all_saved:
  "\<forall>k. save_events k = SaveOk \<Longrightarrow> aborted st = None \<Longrightarrow>
   output_file (disk st) = Content (processed st) \<or> items \<noteq> [] \<Longrightarrow>
   aborted (collect outcome now save_events items st) = None \<and>
   output_file (disk (collect outcome now save_events items st)) =
     Content (processed (collect outcome now save_events items st))"
proof (induction items arbitrary: st)
  case Nil
  then show ?case by simp
next
  case (Cons item items)
  obtain j x where item: "item = (j, x)" by (cases item)
  let ?ps = "processed st @ [completed_record outcome now j x]"
  let ?fs = "(disk st)\<lparr>output_file := Content ?ps, temp_file := Absent\<rparr>"
  let ?st = "st\<lparr>processed := ?ps, disk := ?fs,
                logged := logged st @ worker_errors outcome j x @ [],
                saves := saves st + 1\<rparr>"
  from Cons.prems(1) have sp: "save_progress (save_events (saves st)) ?ps (disk st) = (None, ?fs, [])"
    by (simp add: save_progress_def)
  have "aborted ?st = None" "output_file (disk ?st) = Content (processed ?st) \<or> items \<noteq> []"
    using Cons.prems(2) by simp_all
  from Cons.IH [OF Cons.prems(1) this] item sp show ?case by simp
qed

lemma pid_completed_record [simp]: "pid (completed_record outcome now j x) = rid x"
  by (simp add: completed_record_def with_evaluation_def split: worker_result.splits)

lemma length_pending_of:
  assumes "distinct (map rid all_resumes)" "distinct (map pid ckpt)"
    "set (map pid ckpt) \<subseteq> set (map rid all_resumes)"
  shows "length (pending_of ckpt all_resumes) = length all_resumes - length ckpt"
proof -
  let ?S = "set (map pid ckpt)"
  have "length (filter (\<lambda>i. i \<in> ?S) (map rid all_resumes)) = card {i \<in> set (map rid all_resumes). i \<in> ?S}"
    using assms(1) by (metis distinct_filter distinct_card set_filter)
  also have "{i \<in> set (map rid all_resumes). i \<in> ?S} = ?S" using assms(3) by auto
  also have "card ?S = length ckpt" using assms(2) by (metis distinct_card length_map)
  finally have in_S: "length (filter (\<lambda>i. i \<in> ?S) (map rid all_resumes)) = length ckpt" .
  have "length (filter (\<lambda>i. i \<in> ?S) (map rid all_resumes)) +
        length (filter (\<lambda>i. i \<notin> ?S) (map rid all_resumes)) = length (map rid all_resumes)"
    by (rule sum_length_filter_compl)
  moreover have "length (pending_of ckpt all_resumes) =
        length (filter (\<lambda>i. i \<notin> ?S) (map rid all_resumes))"
    by (simp add: pending_of_def filter_map comp_def)
  ultimately show ?thesis using in_S by simp
qed

subsection \<open>Loading the progress\<close>

lemma load_progress_reads_temp:
  "ReadTemp \<in> set (snd (snd (load_progress fs all_resumes))) \<longleftrightarrow>
     output_file fs = Absent \<and> temp_file fs \<noteq> Absent"
  by (simp add: load_progress_def split: file_state.splits)

text \<open>
  Claim C2, as the code has it.  The loader looks at the output file first.  When the
  output file exists, it alone decides: its records are the processed records, or, when it
  cannot be parsed, the loader warns and starts from no processed records, with every
  input record pending; the temp file is not read.  Only when the output file is absent
  is the temp file read, if there is one: its records are the processed records, or, when
  it cannot be parsed, the loader warns and starts from no processed records.  With
  neither file it starts from no processed records.  The loader always returns.
\<close>

theorem load_progress_falls_back:
  "(output_file fs = Content ps \<longrightarrow>
      load_progress fs all_resumes =
        (ps, pending_of ps all_resumes,
         [ReadOutput, InfoLoaded (length ps) (length (pending_of ps all_resumes))])) \<and>
   (output_file fs = Corrupt \<longrightarrow>
      load_progress fs all_resumes = ([], all_resumes, [ReadOutput, WarnOutputCorrupted])) \<and>
   (output_file fs = Absent \<and> temp_file fs = Content ts \<longrightarrow>
      load_progress fs all_resumes =
        (ts, pending_of ts all_resumes,
         [ReadTemp, InfoRecovered (length ts) (length (pending_of ts all_resumes))])) \<and>
   (output_file fs = Absent \<and> temp_file fs = Corrupt \<longrightarrow>
      load_progress fs all_resumes = ([], all_resumes, [ReadTemp, WarnTempCorrupted])) \<and>
   (output_file fs = Absent \<and> temp_file fs = Absent \<longrightarrow>
      load_progress fs all_resumes = ([], all_resumes, [])) \<and>
   (ReadTemp \<in> set (snd (snd (load_progress fs all_resumes))) \<longleftrightarrow>
      output_file fs = Absent \<and> temp_file fs \<noteq> Absent)"
proof -
  have "output_file fs = Content ps \<longrightarrow>
      load_progress fs all_resumes =
        (ps, pending_of ps all_resumes,
         [ReadOutput, InfoLoaded (length ps) (length (pending_of ps all_resumes))])"
    by (simp add: load_progress_def)
  moreover have "output_file fs = Corrupt \<longrightarrow>
      load_progress fs all_resumes = ([], all_resumes, [ReadOutput, WarnOutputCorrupted])"
    by (simp add: load_progress_def)
  moreover have "output_file fs = Absent \<and> temp_file fs = Content ts \<longrightarrow>
      load_progress fs all_resumes =
        (ts, pending_of ts all_resumes,
         [ReadTemp, InfoRecovered (length ts) (length (pending_of ts all_resumes))])"
    by (simp add: load_progress_def)
  moreover have "output_file fs = Absent \<and> temp_file fs = Corrupt \<longrightarrow>
      load_progress fs all_resumes = ([], all_resumes, [ReadTemp, WarnTempCorrupted])"
    by (simp add: load_progress_def)
  moreover have "output_file fs = Absent \<and> temp_file fs = Absent \<longrightarrow>
      load_progress fs all_resumes = ([], all_resumes, [])"
    by (simp add: load_progress_def)
  ultimately show ?thesis using load_progress_reads_temp [of fs all_resumes]
    by (intro conjI) assumption+
qed

theorem load_progress_falls_back_witness:
  "load_progress temp_only [resume_1, resume_2] =
     ([processed_1], pending_of [processed_1] [resume_1, resume_2],
      [ReadTemp, InfoRecovered (length [processed_1])
         (length (pending_of [processed_1] [resume_1, resume_2]))]) \<and>
   pending_of [processed_1] [resume_1, resume_2] = [resume_2] \<and>
   load_progress corrupt_output [resume_1, resume_2] =
     ([], [resume_1, resume_2], [ReadOutput, WarnOutputCorrupted]) \<and>
   load_progress no_files [resume_1, resume_2] = ([], [resume_1, resume_2], [])"
proof -
  note a = load_progress_falls_back [of temp_only _ "[resume_1, resume_2]" "[processed_1]"]
  note b = load_progress_falls_back [of corrupt_output _ "[resume_1, resume_2]"]
  note c = load_progress_falls_back [of no_files _ "[resume_1, resume_2]"]
  have ha: "output_file temp_only = Absent \<and> temp_file temp_only = Content [processed_1]"
    by (simp add: temp_only_def)
  have hb: "output_file corrupt_output = Corrupt" by (simp add: corrupt_output_def)
  have hc: "output_file no_files = Absent \<and> temp_file no_files = Absent"
    by (simp add: no_files_def)
  have p: "pending_of [processed_1] [resume_1, resume_2] = [resume_2]"
    by (simp add: pending_of_def processed_1_def with_evaluation_def resume_1_def resume_2_def)
  from a ha b hb c hc p show ?thesis by blast
qed

text \<open>
  The output file cannot be parsed and the temp file holds the first record: the loader
  does not read the temp file and starts with both input records pending.
\<close>

theorem corrupt_output_skips_temp:
  "output_file corrupt_output = Corrupt \<and>
   temp_file corrupt_output = Content [processed_1] \<and>
   load_progress corrupt_output [resume_1, resume_2] =
     ([], [resume_1, resume_2], [ReadOutput, WarnOutputCorrupted]) \<and>
   ReadTemp \<notin> set (snd (snd (load_progress corrupt_output [resume_1, resume_2])))"
  by (simp add: load_progress_def corrupt_output_def)

subsection \<open>Restarting from a checkpoint\<close>

lemma pending_ids:
  "set (map rid (pending_of ckpt all_resumes)) = set (map rid all_resumes) - set (map pid ckpt)"
  by (auto simp: pending_of_def)

lemma completed_ids:
  assumes "items = as_completed choices (zip [0 ..< length pending] pending)"
  shows "mset (map (\<lambda>(j, x). pid (completed_record outcome now j x)) items) = mset (map rid pending)"
proof -
  have "mset (map snd items) = image_mset snd (mset items)" by simp
  also have "\<dots> = image_mset snd (mset (zip [0 ..< length pending] pending))"
    by (simp add: assms as_completed_mset)
  also have "\<dots> = mset (map snd (zip [0 ..< length pending] pending))"
    by (simp only: mset_map)
  also have "\<dots> = mset pending" by simp
  finally have A: "mset (map rid (map snd items)) = mset (map rid pending)"
    by (metis mset_map)
  have B: "map (\<lambda>(j, x). pid (completed_record outcome now j x)) items = map rid (map snd items)"
    by (simp add: case_prod_beta)
  show ?thesis unfolding B by (rule A)
qed

lemma checkpoint_not_longer:
  assumes "distinct (map pid ckpt)" "set (map pid ckpt) \<subseteq> set (map rid all_resumes)"
  shows "length ckpt \<le> length all_resumes"
proof -
  have "length ckpt = card (set (map pid ckpt))" using assms(1) by (metis distinct_card length_map)
  also have "\<dots> \<le> card (set (map rid all_resumes))" using assms(2) by (simp add: card_mono)
  also have "\<dots> \<le> length all_resumes" by (metis card_length length_map)
  finally show ?thesis .
qed

text \<open>
  Claim C7.  Let the \<open>N\<close> input records have distinct ids and let the output file hold a
  checkpoint of \<open>M\<close> records with distinct ids, all of them ids of the input.  Then a run
  submits exactly the input records whose ids are not in the checkpoint, \<open>N - M\<close> of
  them, whatever the order in which the workers finish; the records of the checkpoint stay
  as they are at the head of the list of results; a run that no failing save has ended
  finishes with \<open>N\<close> results, with distinct ids, the ids of the input; and when the saves
  succeed the output file holds exactly these results at the end.
\<close>

theorem restart_processes_only_pending:
  assumes ids: "distinct (map rid all_resumes)"
    and out: "output_file fs = Content ckpt"
    and ck: "distinct (map pid ckpt)"
    and sub: "set (map pid ckpt) \<subseteq> set (map rid all_resumes)"
    and r: "r = process_resumes fs all_resumes outcome now save_events choices"
  shows "submitted r = filter (\<lambda>x. rid x \<notin> set (map pid ckpt)) all_resumes \<and>
     length (submitted r) = length all_resumes - length ckpt \<and>
     take (length ckpt) (processed r) = ckpt \<and>
     (aborted r = None \<longrightarrow>
        length (processed r) = length all_resumes \<and> distinct (map pid (processed r)) \<and>
        set (map pid (processed r)) = set (map rid all_resumes)) \<and>
     ((\<forall>k. save_events k = SaveOk) \<longrightarrow>
        aborted r = None \<and> output_file (disk r) = Content (processed r))"
proof -
  let ?pending = "pending_of ckpt all_resumes"
  let ?msgs = "[ReadOutput, InfoLoaded (length ckpt) (length ?pending)]"
  have load: "load_progress fs all_resumes = (ckpt, ?pending, ?msgs)"
    by (simp add: load_progress_def out)
  have len: "length ?pending = length all_resumes - length ckpt"
    by (rule length_pending_of [OF ids ck sub])
  have le: "length ckpt \<le> length all_resumes"
    by (rule checkpoint_not_longer [OF ck sub])
  have pend_filter: "?pending = filter (\<lambda>x. rid x \<notin> set (map pid ckpt)) all_resumes"
    by (simp add: pending_of_def)
  show ?thesis
  proof (cases "?pending = []")
    case True
    with load r have r': "r = \<lparr>processed = ckpt, disk = fs, logged = ?msgs @ [InfoAllProcessed],
             aborted = None, saves = 0, submitted = []\<rparr>"
      by (simp add: process_resumes_def)
    from True len le have eq: "length ckpt = length all_resumes" by simp
    from True pending_ids [of ckpt all_resumes] sub
    have "set (map pid ckpt) = set (map rid all_resumes)" by auto
    with r' True pend_filter len eq ck out show ?thesis by simp
  next
    case False
    define items where "items = as_completed choices (zip [0 ..< length ?pending] ?pending)"
    define st0 where "st0 = \<lparr>processed = ckpt, disk = fs, logged = ?msgs, aborted = None,
               saves = 0, submitted = ?pending\<rparr>"
    from False load r have r': "r = collect outcome now save_events items st0"
      by (simp add: process_resumes_def items_def st0_def)
    have sub_r: "submitted r = ?pending"
      by (simp add: r' collect_submitted st0_def)
    have "take (length (processed st0)) (processed r) = processed st0"
      unfolding r' by (rule collect_prefix)
    then have pre: "take (length ckpt) (processed r) = ckpt" by (simp add: st0_def)
    have idm: "mset (map (\<lambda>(j, x). pid (completed_record outcome now j x)) items) =
        mset (map rid ?pending)"
      by (rule completed_ids) (simp add: items_def)
    have fin: "length (processed r) = length all_resumes \<and> distinct (map pid (processed r)) \<and>
        set (map pid (processed r)) = set (map rid all_resumes)" if "aborted r = None"
    proof -
      from that have p: "processed r = ckpt @ map (\<lambda>(j, x). completed_record outcome now j x) items"
        unfolding r' by (simp add: collect_not_aborted st0_def)
      let ?new = "map (\<lambda>(j, x). pid (completed_record outcome now j x)) items"
      have ids_r: "map pid (processed r) = map pid ckpt @ ?new"
        by (simp add: p case_prod_beta comp_def)
      have "length ?new = length (map rid ?pending)" using idm by (rule mset_eq_length)
      then have l: "length (processed r) = length all_resumes"
        using len le by (simp add: p)
      have "distinct (map rid ?pending)"
        using ids by (simp add: pending_of_def distinct_map_filter)
      then have d: "distinct ?new" using idm by (metis mset_eq_imp_distinct_iff)
      have s: "set ?new = set (map rid all_resumes) - set (map pid ckpt)"
        using idm pending_ids [of ckpt all_resumes] by (metis mset_eq_setD)
      from d s ck have "distinct (map pid (processed r))"
        unfolding ids_r by auto
      moreover from s sub have "set (map pid (processed r)) = set (map rid all_resumes)"
        unfolding ids_r by auto
      ultimately show ?thesis using l by blast
    qed
    have saved: "aborted r = None \<and> output_file (disk r) = Content (processed r)"
      if "\<forall>k. save_events k = SaveOk"
    proof -
      from idm False have "items \<noteq> []"
        by (metis map_is_Nil_conv mset_zero_iff)
      then have "output_file (disk st0) = Content (processed st0) \<or> items \<noteq> []" by simp
      moreover have "aborted st0 = None" by (simp add: st0_def)
      ultimately show ?thesis unfolding r' using that by (intro collect_all_saved)
    qed
    from sub_r pend_filter len pre fin saved show ?thesis by simp
  qed
qed

lemma restart_example:
  "process_resumes checkpoint_1 [resume_1, resume_2] all_returned [] (\<lambda>k. SaveOk) [] =
     \<lparr>processed = [processed_1, processed_2],
      disk = \<lparr>output_file = Content [processed_1, processed_2], temp_file = Absent\<rparr>,
      logged = [ReadOutput, InfoLoaded 1 1], aborted = None, saves = 1,
      submitted = [resume_2]\<rparr>"
  by (simp add: process_resumes_def load_progress_def pending_of_def checkpoint_1_def
      save_progress_def completed_record_def worker_errors_def all_returned_def
      processed_1_def processed_2_def with_evaluation_def resume_1_def resume_2_def)

theorem restart_processes_only_pending_witness:
  "processed (process_resumes checkpoint_1 [resume_1, resume_2] all_returned [] (\<lambda>k. SaveOk) []) =
     [processed_1, processed_2] \<and>
   submitted (process_resumes checkpoint_1 [resume_1, resume_2] all_returned [] (\<lambda>k. SaveOk) []) =
     filter (\<lambda>x. rid x \<notin> set (map pid [processed_1])) [resume_1, resume_2] \<and>
   length (submitted (process_resumes checkpoint_1 [resume_1, resume_2] all_returned []
     (\<lambda>k. SaveOk) [])) = length [resume_1, resume_2] - length [processed_1] \<and>
   aborted (process_resumes checkpoint_1 [resume_1, resume_2] all_returned [] (\<lambda>k. SaveOk) []) = None \<and>
   length (processed (process_resumes checkpoint_1 [resume_1, resume_2] all_returned []
     (\<lambda>k. SaveOk) [])) = length [resume_1, resume_2] \<and>
   output_file (disk (process_resumes checkpoint_1 [resume_1, resume_2] all_returned []
     (\<lambda>k. SaveOk) [])) =
     Content (processed (process_resumes checkpoint_1 [resume_1, resume_2] all_returned []
       (\<lambda>k. SaveOk) []))"
proof -
  have a: "distinct (map rid [resume_1, resume_2])"
    by (simp add: resume_1_def resume_2_def)
  have b: "output_file checkpoint_1 = Content [processed_1]"
    by (simp add: checkpoint_1_def)
  have c: "distinct (map pid [processed_1])" by simp
  have d: "set (map pid [processed_1]) \<subseteq> set (map rid [resume_1, resume_2])"
    by (simp add: processed_1_def with_evaluation_def resume_1_def)
  note t = restart_processes_only_pending [OF a b c d refl, of all_returned "[]" "\<lambda>k. SaveOk" "[]"]
  have s: "\<forall>k::nat. SaveOk = SaveOk" by simp
  note t1 = t [THEN conjunct1]
  note t2 = t [THEN conjunct2, THEN conjunct1]
  note t4 = t [THEN conjunct2, THEN conjunct2, THEN conjunct2, THEN conjunct1]
  note t5 = t [THEN conjunct2, THEN conjunct2, THEN conjunct2, THEN conjunct2]
  note u = t5 [THEN mp, OF s]
  note v = t4 [THEN mp, OF u [THEN conjunct1], THEN conjunct1]
  have e: "processed (process_resumes checkpoint_1 [resume_1, resume_2] all_returned []
      (\<lambda>k. SaveOk) []) = [processed_1, processed_2]"
    by (simp add: restart_example)
  show ?thesis
    by (intro conjI) (rule e t1 t2 u [THEN conjunct1] v u [THEN conjunct2])+
qed

subsection \<open>Failing saves\<close>

lemma collect_replace_fails:
  "save_events (saves st) = ReplaceFails \<Longrightarrow>
   collect outcome now save_events ((j, x) # rest) st =
     collect outcome now save_events rest
       (st\<lparr>processed := processed st @ [completed_record outcome now j x],
           disk := (disk st)\<lparr>temp_file :=
             Content (processed st @ [completed_record outcome now j x])\<rparr>,
           logged := logged st @ worker_errors outcome j x @ [ErrorSaving],
           saves := saves st + 1\<rparr>)"
  by (simp add: save_progress_def)

lemma collect_save_ok:
  "save_events (saves st) = SaveOk \<Longrightarrow>
   collect outcome now save_events ((j, x) # rest) st =
     collect outcome now save_events rest
       (st\<lparr>processed := processed st @ [completed_record outcome now j x],
           disk := (disk st)\<lparr>output_file :=
             Content (processed st @ [completed_record outcome now j x]), temp_file := Absent\<rparr>,
           logged := logged st @ worker_errors outcome j x,
           saves := saves st + 1\<rparr>)"
  by (simp add: save_progress_def)

lemma collect_write_fails:
  "save_events (saves st) = OpenFails \<or> save_events (saves st) = DumpFails \<Longrightarrow>
   collect outcome now save_events ((j, x) # rest) st =
     st\<lparr>processed := processed st @ [completed_record outcome now j x],
        disk := (if save_events (saves st) = OpenFails then disk st
                 else (disk st)\<lparr>temp_file := Corrupt\<rparr>),
        logged := logged st @ worker_errors outcome j x,
        aborted := Some OSError, saves := saves st + 1\<rparr>"
  by (auto simp: save_progress_def)

lemma save_progress_keeps_output:
  "ev \<noteq> SaveOk \<Longrightarrow> output_file (fst (snd (save_progress ev ps fs))) = output_file fs"
  by (cases ev) (simp_all add: save_progress_def)

text \<open>
  Claim C9, as the code has it.  When replacing the output file fails, the failure is
  logged, the output file stays as it was, and the loop goes on with the next completed
  record; the save of the next cycle writes all results, those of the failed cycle
  included.  When writing the temp file fails, the exception leaves the loop: the run is
  over, and the records that complete later are not collected.  Whatever fails, the output
  file is the one committed before.
\<close>

theorem save_failures:
  "(save_events (saves st) = ReplaceFails \<longrightarrow>
      collect outcome now save_events ((j, x) # rest) st =
        collect outcome now save_events rest
          (st\<lparr>processed := processed st @ [completed_record outcome now j x],
              disk := (disk st)\<lparr>temp_file :=
                Content (processed st @ [completed_record outcome now j x])\<rparr>,
              logged := logged st @ worker_errors outcome j x @ [ErrorSaving],
              saves := saves st + 1\<rparr>)) \<and>
   (save_events (saves st) = ReplaceFails \<and> save_events (saves st + 1) = SaveOk \<longrightarrow>
      collect outcome now save_events [(j, x), (j', x')] st =
        st\<lparr>processed := processed st @
               [completed_record outcome now j x, completed_record outcome now j' x'],
           disk := (disk st)\<lparr>output_file :=
               Content (processed st @
                 [completed_record outcome now j x, completed_record outcome now j' x']),
             temp_file := Absent\<rparr>,
           logged := logged st @ worker_errors outcome j x @ [ErrorSaving] @
               worker_errors outcome j' x',
           saves := saves st + 2\<rparr>) \<and>
   (save_events (saves st) = OpenFails \<or> save_events (saves st) = DumpFails \<longrightarrow>
      collect outcome now save_events ((j, x) # rest) st =
        st\<lparr>processed := processed st @ [completed_record outcome now j x],
           disk := (if save_events (saves st) = OpenFails then disk st
                    else (disk st)\<lparr>temp_file := Corrupt\<rparr>),
           logged := logged st @ worker_errors outcome j x,
           aborted := Some OSError, saves := saves st + 1\<rparr>) \<and>
   (ev \<noteq> SaveOk \<longrightarrow> output_file (fst (snd (save_progress ev ps fs))) = output_file fs)"
proof (intro conjI impI)
  assume "save_events (saves st) = ReplaceFails"
  then show "collect outcome now save_events ((j, x) # rest) st =
        collect outcome now save_events rest
          (st\<lparr>processed := processed st @ [completed_record outcome now j x],
              disk := (disk st)\<lparr>temp_file :=
                Content (processed st @ [completed_record outcome now j x])\<rparr>,
              logged := logged st @ worker_errors outcome j x @ [ErrorSaving],
              saves := saves st + 1\<rparr>)"
    by (rule collect_replace_fails)
next
  assume "save_events (saves st) = ReplaceFails \<and> save_events (saves st + 1) = SaveOk"
  then show "collect outcome now save_events [(j, x), (j', x')] st =
        st\<lparr>processed := processed st @
               [completed_record outcome now j x, completed_record outcome now j' x'],
           disk := (disk st)\<lparr>output_file :=
               Content (processed st @
                 [completed_record outcome now j x, completed_record outcome now j' x']),
             temp_file := Absent\<rparr>,
           logged := logged st @ worker_errors outcome j x @ [ErrorSaving] @
               worker_errors outcome j' x',
           saves := saves st + 2\<rparr>"
    by (simp add: save_progress_def)
next
  assume "save_events (saves st) = OpenFails \<or> save_events (saves st) = DumpFails"
  then show "collect outcome now save_events ((j, x) # rest) st =
        st\<lparr>processed := processed st @ [completed_record outcome now j x],
           disk := (if save_events (saves st) = OpenFails then disk st
                    else (disk st)\<lparr>temp_file := Corrupt\<rparr>),
           logged := logged st @ worker_errors outcome j x,
           aborted := Some OSError, saves := saves st + 1\<rparr>"
    by (rule collect_write_fails)
next
  assume "ev \<noteq> SaveOk"
  then show "output_file (fst (snd (save_progress ev ps fs))) = output_file fs"
    by (rule save_progress_keeps_output)
qed

lemma completed_examples:
  "completed_record all_returned [] 0 resume_1 = processed_1"
  "completed_record all_returned [] (Suc 0) resume_2 = processed_2"
  "worker_errors all_returned j x = []"
  by (simp_all add: completed_record_def worker_errors_def all_returned_def processed_1_def
      processed_2_def)

theorem save_failures_witness:
  "collect all_returned [] replace_fails_once [(0, resume_1), (1, resume_2)] initial_run =
     initial_run\<lparr>processed := [processed_1, processed_2],
       disk := no_files\<lparr>output_file := Content [processed_1, processed_2], temp_file := Absent\<rparr>,
       logged := [ErrorSaving], saves := 2\<rparr> \<and>
   collect all_returned [] (\<lambda>k. DumpFails) [(0, resume_1), (1, resume_2)] initial_run =
     initial_run\<lparr>processed := [processed_1], disk := no_files\<lparr>temp_file := Corrupt\<rparr>,
       logged := [], aborted := Some OSError, saves := 1\<rparr> \<and>
   output_file (fst (snd (save_progress DumpFails [processed_2] checkpoint_1))) =
     output_file checkpoint_1"
proof -
  note a = save_failures [of replace_fails_once initial_run all_returned "[]" 0 resume_1 "[]"
      1 resume_2 SaveOk "[]" no_files, THEN conjunct2, THEN conjunct1]
  note b = save_failures [of "\<lambda>k. DumpFails" initial_run all_returned "[]" 0 resume_1
      "[(1, resume_2)]" 1 resume_2 DumpFails "[processed_2]" checkpoint_1,
      THEN conjunct2, THEN conjunct2]
  have ha: "replace_fails_once (saves initial_run) = ReplaceFails \<and>
      replace_fails_once (saves initial_run + 1) = SaveOk"
    by (simp add: replace_fails_once_def initial_run_def)
  have hb: "DumpFails = OpenFails \<or> DumpFails = DumpFails" by simp
  have hc: "DumpFails \<noteq> SaveOk" by simp
  from a [THEN mp, OF ha]
  have 1: "collect all_returned [] replace_fails_once [(0, resume_1), (1, resume_2)] initial_run =
     initial_run\<lparr>processed := [processed_1, processed_2],
       disk := no_files\<lparr>output_file := Content [processed_1, processed_2], temp_file := Absent\<rparr>,
       logged := [ErrorSaving], saves := 2\<rparr>"
    by (simp add: completed_examples initial_run_def)
  from b [THEN conjunct1, THEN mp, OF hb]
  have 2: "collect all_returned [] (\<lambda>k. DumpFails) [(0, resume_1), (1, resume_2)] initial_run =
     initial_run\<lparr>processed := [processed_1], disk := no_files\<lparr>temp_file := Corrupt\<rparr>,
       logged := [], aborted := Some OSError, saves := 1\<rparr>"
    by (simp add: completed_examples initial_run_def)
  note 3 = b [THEN conjunct2, THEN mp, OF hc]
  from 1 2 3 show ?thesis by (intro conjI)
qed

text \<open>
  Two records are pending and the first save fails while the temp file is written: the
  exception leaves \<open>process_resumes\<close>, which logs nothing about it, and the second
  record is never collected.
\<close>

theorem write_failure_ends_the_run:
  "process_resumes no_files [resume_1, resume_2] all_returned [] (\<lambda>k. DumpFails) [] =
     \<lparr>processed = [processed_1],
      disk = \<lparr>output_file = Absent, temp_file = Corrupt\<rparr>,
      logged = [], aborted = Some OSError, saves = 1, submitted = [resume_1, resume_2]\<rparr>"
  by (simp add: process_resumes_def load_progress_def no_files_def save_progress_def
      completed_examples)

end
